theory Spec2Isabelle
  imports Main "HOL-Library.Sublist"
begin

section \<open>Strings of the host language\<close>

text \<open>
  A source text is a \<^typ>\<open>string\<close>: a list of code units, here the code units below 256.
  The helpers of this section are the string methods the parser calls
  (\<^verbatim>\<open>trim\<close>, \<^verbatim>\<open>indexOf\<close>, \<^verbatim>\<open>slice\<close>, \<^verbatim>\<open>split\<close>, \<^verbatim>\<open>join\<close>, \<^verbatim>\<open>startsWith\<close>) and the two
  character classes of its regular expressions.
\<close>

text \<open>
  White space of \<^verbatim>\<open>String.prototype.trim\<close> and of the class \<^verbatim>\<open>\s\<close>: TAB, LF, VT, FF, CR,
  SP and NBSP (the white space and line terminators that exist below 256).
\<close>

definition is_space :: "char \<Rightarrow> bool" where
  "is_space c = (c = CHR 0x09 \<or> c = CHR 0x0A \<or> c = CHR 0x0B \<or> c = CHR 0x0C \<or>
     c = CHR 0x0D \<or> c = CHR 0x20 \<or> c = CHR 0xA0)"

text \<open>The class \<^verbatim>\<open>\w\<close> without the unicode flag: \<^verbatim>\<open>[A-Za-z0-9_]\<close>.\<close>

definition is_word :: "char \<Rightarrow> bool" where
  "is_word c = (let n = (of_char c :: nat) in
     (48 \<le> n \<and> n \<le> 57) \<or> (65 \<le> n \<and> n \<le> 90) \<or> n = 95 \<or> (97 \<le> n \<and> n \<le> 122))"

definition trim :: "string \<Rightarrow> string" where
  "trim s = rev (dropWhile is_space (rev (dropWhile is_space s)))"

text \<open>
  \<^verbatim>\<open>s.indexOf(pat, from)\<close>: the least index at or after \<open>from\<close> where \<open>pat\<close> starts,
  \<open>None\<close> for the result \<^verbatim>\<open>-1\<close>. The start position is clamped to the length of \<open>s\<close>.
\<close>

fun index_from :: "string \<Rightarrow> string \<Rightarrow> nat \<Rightarrow> nat option" where
  "index_from pat [] i = (if pat = [] then Some i else None)"
| "index_from pat (c # cs) i =
     (if prefix pat (c # cs) then Some i else index_from pat cs (Suc i))"

definition indexOf :: "string \<Rightarrow> string \<Rightarrow> nat \<Rightarrow> nat option" where
  "indexOf s pat from = index_from pat (drop (min from (length s)) s) (min from (length s))"

text \<open>
  \<^verbatim>\<open>s.slice(a, b)\<close> for indices that are not negative: empty when \<open>b \<le> a\<close>, cut at the
  end of \<open>s\<close>. \<^verbatim>\<open>s.slice(a)\<close> is \<^term>\<open>drop a s\<close>.
\<close>

definition slice :: "string \<Rightarrow> nat \<Rightarrow> nat \<Rightarrow> string" where
  "slice s a b = take (b - a) (drop a s)"

text \<open>\<^verbatim>\<open>s.split("\n")\<close>: the pieces between line feeds; one empty piece for the empty text.\<close>

definition LF :: char where
  "LF = CHR 0x0A"

fun split_lines :: "string \<Rightarrow> string list" where
  "split_lines [] = [[]]"
| "split_lines (c # cs) =
     (if c = LF then [] # split_lines cs
      else (case split_lines cs of l # ls \<Rightarrow> (c # l) # ls | [] \<Rightarrow> [[c]]))"

text \<open>\<^verbatim>\<open>xs.join(sep)\<close>.\<close>

fun join :: "string \<Rightarrow> string list \<Rightarrow> string" where
  "join sep [] = []"
| "join sep [x] = x"
| "join sep (x # y # ys) = x @ sep @ join sep (y # ys)"

section \<open>The parser\<close>

record ParsedTemplate =
  imports_of :: "string list"
  preamble :: "string list"
  propsBody :: string
  body :: string
  propKeys :: "string list"

text \<open>Every \<^verbatim>\<open>throw new Error(...)\<close> of the parser is one constructor; its message is the thrown text.\<close>

datatype parse_error =
    NoOpeningDelimiter
  | NoClosingDelimiter
  | MissingProps
  | MissingOpenBrace
  | UnmatchedBrace

fun error_message :: "parse_error \<Rightarrow> string" where
  "error_message NoOpeningDelimiter = ''Missing frontmatter: no opening `---` found''"
| "error_message NoClosingDelimiter = ''Missing frontmatter: no closing `---` found''"
| "error_message MissingProps = ''Missing `interface Props { ... }` in frontmatter''"
| "error_message MissingOpenBrace = ''Missing opening `{` for Props interface''"
| "error_message UnmatchedBrace = ''Unmatched `{` in Props interface''"

definition FRONTMATTER_DELIMITER :: string where
  "FRONTMATTER_DELIMITER = ''---''"

definition splitFrontmatter :: "string \<Rightarrow> parse_error + (string \<times> string)" where
  "splitFrontmatter source =
     (case indexOf source FRONTMATTER_DELIMITER 0 of
        None \<Rightarrow> Inl NoOpeningDelimiter
      | Some firstIndex \<Rightarrow>
          (let afterFirst = firstIndex + length FRONTMATTER_DELIMITER in
           case indexOf source FRONTMATTER_DELIMITER afterFirst of
             None \<Rightarrow> Inl NoClosingDelimiter
           | Some secondIndex \<Rightarrow>
               Inr (trim (slice source afterFirst secondIndex),
                    trim (drop (secondIndex + length FRONTMATTER_DELIMITER) source))))"

definition extractImports :: "string \<Rightarrow> string list" where
  "extractImports frontmatter =
     filter (prefix ''import type'') (map trim (split_lines frontmatter))"

text \<open>
  The loop shared by \<^verbatim>\<open>extractPreamble\<close> and \<^verbatim>\<open>extractPropsBody\<close>:
  \<^verbatim>\<open>while (i < frontmatter.length && depth > 0) { ...; i++ }\<close>, run on the text from index
  \<open>i\<close> on. It returns the final \<open>i\<close> and \<open>depth\<close>.
\<close>

fun brace_scan :: "string \<Rightarrow> nat \<Rightarrow> int \<Rightarrow> nat \<times> int" where
  "brace_scan [] i depth = (i, depth)"
| "brace_scan (c # cs) i depth =
     (if depth > 0
      then brace_scan cs (Suc i)
             (if c = CHR ''{'' then depth + 1 else if c = CHR ''}'' then depth - 1 else depth)
      else (i, depth))"

text \<open>
  One attempt of \<^verbatim>\<open>/(?:interface|type)\s+(?!Props\b)(\w+)/\<close> at the head of a text; the result
  is the length of the match. The pattern has one way to match at a position: the white space
  after the keyword is taken whole (a word character must follow it), the group takes the
  whole run of word characters, and the lookahead \<^verbatim>\<open>(?!Props\b)\<close> fails exactly when that run
  is \<^verbatim>\<open>Props\<close>.
\<close>

definition preamble_match :: "string \<Rightarrow> nat option" where
  "preamble_match t =
     (case (if prefix ''interface'' t then Some (9::nat)
            else if prefix ''type'' t then Some 4 else None) of
        None \<Rightarrow> None
      | Some k \<Rightarrow>
          (let ws = takeWhile is_space (drop k t);
               ident = takeWhile is_word (dropWhile is_space (drop k t))
           in if ws \<noteq> [] \<and> ident \<noteq> [] \<and> ident \<noteq> ''Props''
              then Some (k + length ws + length ident) else None))"

lemma preamble_match_pos: "preamble_match t = Some n \<Longrightarrow> 0 < n"
  by (auto simp: preamble_match_def Let_def split: if_splits option.splits)

text \<open>
  \<^verbatim>\<open>frontmatter.matchAll(pattern)\<close> with the global flag: the start indices of the matches
  found from left to right, each search resuming where the previous match ended.
\<close>

function matchAll_from :: "string \<Rightarrow> nat \<Rightarrow> nat list" where
  "matchAll_from s p =
     (if length s \<le> p then []
      else (case preamble_match (drop p s) of
              Some n \<Rightarrow> p # matchAll_from s (p + n)
            | None \<Rightarrow> matchAll_from s (Suc p)))"
  by pat_completeness auto
termination
  by (relation "measure (\<lambda>(s, p). length s - p)") (auto dest: preamble_match_pos)

declare matchAll_from.simps [simp del]

definition preamble_capture :: "string \<Rightarrow> nat \<Rightarrow> string option" where
  "preamble_capture frontmatter start =
     (if prefix ''interface'' (drop start frontmatter)
      then (case indexOf frontmatter ''{'' start of
              None \<Rightarrow> None
            | Some openBrace \<Rightarrow>
                (let (i, depth) = brace_scan (drop (openBrace + 1) frontmatter) (openBrace + 1) 1
                 in Some (trim (slice frontmatter start i))))
      else (case indexOf frontmatter [LF] start of
              None \<Rightarrow> Some (trim (drop start frontmatter))
            | Some e \<Rightarrow> Some (trim (slice frontmatter start e))))"

definition extractPreamble :: "string \<Rightarrow> string list" where
  "extractPreamble frontmatter =
     List.map_filter (preamble_capture frontmatter) (matchAll_from frontmatter 0)"

definition extractPropsBody :: "string \<Rightarrow> parse_error + string" where
  "extractPropsBody frontmatter =
     (let marker = ''interface Props'' in
      case indexOf frontmatter marker 0 of
        None \<Rightarrow> Inl MissingProps
      | Some markerIndex \<Rightarrow>
          (case indexOf frontmatter ''{'' (markerIndex + length marker) of
             None \<Rightarrow> Inl MissingOpenBrace
           | Some openBrace \<Rightarrow>
               (let (i, depth) = brace_scan (drop (openBrace + 1) frontmatter) (openBrace + 1) 1
                in if depth \<noteq> 0 then Inl UnmatchedBrace
                   else Inr (trim (slice frontmatter (openBrace + 1) (i - 1))))))"

text \<open>
  \<^verbatim>\<open>trimmed.match(/^(\w+)\s*[?]?\s*:/)\<close>, giving group 1. Again the pattern matches in one way
  only: the group is the whole leading run of word characters, since what follows it in the
  pattern (white space, \<^verbatim>\<open>?\<close>, \<^verbatim>\<open>:\<close>) is never a word character.
\<close>

definition match_key :: "string \<Rightarrow> string option" where
  "match_key trimmed =
     (let name = takeWhile is_word trimmed;
          r1 = dropWhile is_space (dropWhile is_word trimmed);
          r2 = (case r1 of c # cs \<Rightarrow> if c = CHR ''?'' then cs else r1 | [] \<Rightarrow> r1);
          r3 = dropWhile is_space r2
      in if name \<noteq> [] \<and> prefix '':'' r3 then Some name else None)"

definition brace_delta :: "char \<Rightarrow> int \<Rightarrow> int" where
  "brace_delta ch depth =
     (if ch = CHR ''{'' then depth + 1 else if ch = CHR ''}'' then depth - 1 else depth)"

text \<open>The loop of \<^verbatim>\<open>extractPropKeys\<close> over the lines, with its two variables.\<close>

fun propKeys_loop :: "string list \<Rightarrow> int \<Rightarrow> string list \<Rightarrow> string list" where
  "propKeys_loop [] depth keys = keys"
| "propKeys_loop (line # rest) depth keys =
     (let trimmed = trim line in
      if trimmed = [] then propKeys_loop rest depth keys
      else propKeys_loop rest (fold brace_delta trimmed depth)
             (if depth = 0
              then (case match_key trimmed of Some k \<Rightarrow> keys @ [k] | None \<Rightarrow> keys)
              else keys))"

definition extractPropKeys :: "string \<Rightarrow> string list" where
  "extractPropKeys pb = propKeys_loop (split_lines pb) 0 []"

definition parse :: "string \<Rightarrow> parse_error + ParsedTemplate" where
  "parse source =
     (case splitFrontmatter source of
        Inl e \<Rightarrow> Inl e
      | Inr (frontmatter, b) \<Rightarrow>
          (let imports = extractImports frontmatter;
               preamble_decls = extractPreamble frontmatter
           in case extractPropsBody frontmatter of
                Inl e \<Rightarrow> Inl e
              | Inr pb \<Rightarrow>
                  (let keys = extractPropKeys pb
                   in Inr \<lparr> imports_of = imports,
                            preamble = preamble_decls,
                            propsBody = pb,
                            body = b,
                            propKeys = keys \<rparr>)))"

section \<open>The compiler\<close>

definition BACKSLASH :: char where
  "BACKSLASH = CHR 0x5C"

definition BACKTICK :: char where
  "BACKTICK = CHR 0x60"

definition CR :: char where
  "CR = CHR 0x0D"

text \<open>
  \<^verbatim>\<open>s.replace(/pat/g, rep)\<close> for a pattern that is a literal text and a replacement without
  replacement patterns: every occurrence of \<open>pat\<close>, found from left to right without overlap,
  becomes \<open>rep\<close>. The three replacements of the compiler are of this kind (in \<^verbatim>\<open>"\\${"\<close> the
  dollar sign stands before a brace, which is no replacement pattern).
\<close>

function replace_all :: "string \<Rightarrow> string \<Rightarrow> string \<Rightarrow> string" where
  "replace_all pat rep [] = []"
| "replace_all pat rep (c # cs) =
     (if pat \<noteq> [] \<and> prefix pat (c # cs)
      then rep @ replace_all pat rep (drop (length pat) (c # cs))
      else c # replace_all pat rep cs)"
  by pat_completeness auto
termination
  by (relation "measure (\<lambda>(pat, rep, s). length s)") auto

text \<open>The value of \<^verbatim>\<open>escapedRaw\<close> in \<^verbatim>\<open>compileToString\<close>.\<close>

definition escapedRaw :: "string \<Rightarrow> string" where
  "escapedRaw b =
     replace_all ''${'' (BACKSLASH # ''${'')
       (replace_all [BACKTICK] [BACKSLASH, BACKTICK]
         (replace_all [BACKSLASH] [BACKSLASH, BACKSLASH] b))"

definition compileToString :: "ParsedTemplate \<Rightarrow> string" where
  "compileToString parsed =
     (let destructure =
            (if length (propKeys parsed) > 0
             then ''const { '' @ join '', '' (propKeys parsed) @ '' } = props;'' else []);
          lines0 = [''export default {''];
          lines1 = lines0 @ [''  render(props) {''];
          lines2 = (if destructure \<noteq> [] then lines1 @ [''    '' @ destructure] else lines1);
          lines3 = lines2 @ [''    return `'' @ body parsed @ ''`;''];
          lines4 = lines3 @ [''  },''];
          lines5 = lines4 @ [''  raw: `'' @ escapedRaw (body parsed) @ ''`''];
          lines6 = lines5 @ [''};'']
      in join [LF] lines6 @ [LF])"

subsection \<open>The host's reading of a template literal\<close>

text \<open>
  A module made by \<^verbatim>\<open>compileToString\<close> is loaded by the host, which reads the text between the
  backticks of its \<^verbatim>\<open>raw\<close> field as a template literal. That reading is modelled on a fragment
  of the language: the values of a scope are strings, \<^verbatim>\<open>undefined\<close> or plain objects, and every
  interpolation \<^verbatim>\<open>${...}\<close> of a template is a single identifier. The model answers
  \<open>Unsupported\<close> outside the fragment.
\<close>

datatype js_value = JString string | JUndefined | JObject

datatype js_error = SyntaxError | ReferenceError string | Unsupported

text \<open>The conversion to a string that an interpolation applies to its value.\<close>

fun to_string :: "js_value \<Rightarrow> string" where
  "to_string (JString s) = s"
| "to_string JUndefined = ''undefined''"
| "to_string JObject = ''[object Object]''"

definition is_digit :: "char \<Rightarrow> bool" where
  "is_digit c = (let n = (of_char c :: nat) in 48 \<le> n \<and> n \<le> 57)"

text \<open>Identifier names of the fragment: \<^verbatim>\<open>[A-Za-z_$][A-Za-z0-9_$]*\<close>.\<close>

definition is_identifier :: "string \<Rightarrow> bool" where
  "is_identifier s =
     (case s of
        [] \<Rightarrow> False
      | c # cs \<Rightarrow> (is_word c \<or> c = CHR ''$'') \<and> \<not> is_digit c \<and>
                 list_all (\<lambda>x. is_word x \<or> x = CHR ''$'') cs)"

fun prepend :: "string \<Rightarrow> js_error + (string \<times> string) \<Rightarrow> js_error + (string \<times> string)" where
  "prepend s (Inl e) = Inl e"
| "prepend s (Inr (v, rest)) = Inr (s @ v, rest)"

datatype template_mode = InText | InSubstitution string

text \<open>
  The value of a template literal, read from the character after its opening backtick: the
  string it denotes and the text after its closing backtick. In the text of the template a
  backslash escapes the next character (the model knows the escapes of a backslash, a
  backtick and a dollar sign), \<^verbatim>\<open>${\<close> opens an interpolation, and a carriage return, alone or
  before a line feed, denotes a line feed (ECMAScript, Static Semantics: TV of a template
  character that is a line terminator sequence). An interpolation holds an identifier, looked
  up in the scope \<open>env\<close>.
\<close>

fun template_literal ::
  "(string \<Rightarrow> js_value option) \<Rightarrow> template_mode \<Rightarrow> string \<Rightarrow> js_error + (string \<times> string)"
where
  "template_literal env InText [] = Inl SyntaxError"
| "template_literal env InText [c] = (if c = BACKTICK then Inr ([], []) else Inl SyntaxError)"
| "template_literal env InText (c # d # cs) =
     (if c = BACKTICK then Inr ([], d # cs)
      else if c = BACKSLASH
      then (if d = BACKSLASH \<or> d = BACKTICK \<or> d = CHR ''$''
            then prepend [d] (template_literal env InText cs) else Inl Unsupported)
      else if c = CHR ''$'' \<and> d = CHR ''{'' then template_literal env (InSubstitution []) cs
      else if c = CR \<and> d = LF then prepend [LF] (template_literal env InText cs)
      else if c = CR then prepend [LF] (template_literal env InText (d # cs))
      else prepend [c] (template_literal env InText (d # cs)))"
| "template_literal env (InSubstitution expr) [] = Inl SyntaxError"
| "template_literal env (InSubstitution expr) (c # cs) =
     (if c = CHR ''}''
      then (if is_identifier (trim expr)
            then (case env (trim expr) of
                    None \<Rightarrow> Inl (ReferenceError (trim expr))
                  | Some v \<Rightarrow> prepend (to_string v) (template_literal env InText cs))
            else Inl Unsupported)
      else template_literal env (InSubstitution (expr @ [c])) cs)"

subsection \<open>The in-memory template\<close>

text \<open>The value of \<^verbatim>\<open>fnBody\<close> in \<^verbatim>\<open>compile\<close>.\<close>

definition fnBody :: "ParsedTemplate \<Rightarrow> string" where
  "fnBody parsed =
     (let destructure =
            (if length (propKeys parsed) > 0
             then ''const { '' @ join '', '' (propKeys parsed) @ '' } = props; '' else [])
      in destructure @ ''return `'' @ body parsed @ ''`;'')"

text \<open>
  \<^verbatim>\<open>compile\<close> hands the function body to the host's \<^verbatim>\<open>new Function("props", fnBody)\<close>. The host's
  constructor is the parameter \<open>new_Function\<close>: it either raises an error, and then \<^verbatim>\<open>compile\<close>
  raises it, or returns the function that becomes the \<^verbatim>\<open>render\<close> field. Nothing is assumed of
  the constructor or of the functions it makes.
\<close>

record 'f Template =
  render :: 'f
  raw :: string

definition compile :: "(string \<Rightarrow> 'e + 'f) \<Rightarrow> ParsedTemplate \<Rightarrow> 'e + 'f Template" where
  "compile new_Function parsed =
     (case new_Function (fnBody parsed) of
        Inl e \<Rightarrow> Inl e
      | Inr renderFn \<Rightarrow> Inr \<lparr> render = renderFn, raw = body parsed \<rparr>)"

section \<open>The declaration generator\<close>

definition generateDts :: "ParsedTemplate \<Rightarrow> string" where
  "generateDts parsed =
     (let lines0 = fold (\<lambda>imp ls. ls @ [imp]) (imports_of parsed) [];
          lines1 = (if length (imports_of parsed) > 0 then lines0 @ [[]] else lines0);
          lines2 = fold (\<lambda>decl ls. ls @ [decl]) (preamble parsed) lines1;
          lines3 = (if length (preamble parsed) > 0 then lines2 @ [[]] else lines2);
          lines4 = lines3 @
            [''declare const template: import('' @ [CHR 0x22] @ ''typemark'' @ [CHR 0x22] @
             '').Template<{''];
          propsLines = split_lines (propsBody parsed);
          lines5 = fold (\<lambda>(i, line) ls. if i = (0::nat) then ls @ [''    '' @ line] else ls @ [line])
                     (enumerate 0 propsLines) lines4;
          lines6 = lines5 @ [''}>;''];
          lines7 = lines6 @ [''export default template;''];
          lines8 = lines7 @ [[]]
      in join [LF] lines8)"

section \<open>The claims' words as definitions\<close>

subsection \<open>Occurrences of the delimiter\<close>

text \<open>
  The occurrences of the three-character sequence \<^verbatim>\<open>---\<close> in a text, as start indices, counted
  from left to right without overlap (a run of four dashes holds one occurrence, a run of six
  holds two).
\<close>

fun occurrences_from :: "string \<Rightarrow> nat \<Rightarrow> nat list" where
  "occurrences_from (a # b # c # cs) i =
     (if a = CHR ''-'' \<and> b = CHR ''-'' \<and> c = CHR ''-''
      then i # occurrences_from cs (i + 3)
      else occurrences_from (b # c # cs) (Suc i))"
| "occurrences_from cs i = []"

definition delimiter_occurrences :: "string \<Rightarrow> nat list" where
  "delimiter_occurrences s = occurrences_from s 0"

subsection \<open>The failure cases of the parser\<close>

text \<open>The text after the first occurrence of \<open>pat\<close> (empty when there is none).\<close>

fun after_first :: "string \<Rightarrow> string \<Rightarrow> string" where
  "after_first pat [] = []"
| "after_first pat (c # cs) =
     (if prefix pat (c # cs) then drop (length pat) (c # cs) else after_first pat cs)"

text \<open>Opening braces minus closing braces of a text.\<close>

definition brace_balance :: "string \<Rightarrow> int" where
  "brace_balance u = int (count_list u (CHR ''{'')) - int (count_list u (CHR ''}''))"

text \<open>
  The brace scan over \<open>t\<close>, the text after an opening brace, exhausts \<open>t\<close> before the depth
  returns to 0: the depth, 1 at the start, is positive after every prefix of \<open>t\<close>.
\<close>

definition never_closed :: "string \<Rightarrow> bool" where
  "never_closed t = list_all (\<lambda>u. 0 < 1 + brace_balance u) (prefixes t)"

text \<open>
  The failure the specification gives a source, \<open>None\<close> when it gives none: no occurrence of
  the delimiter, exactly one, a frontmatter without the marker \<^verbatim>\<open>interface Props\<close>, no opening
  brace after the marker, braces that never close.
\<close>

definition expected_failure :: "string \<Rightarrow> parse_error option" where
  "expected_failure s =
     (case delimiter_occurrences s of
        [] \<Rightarrow> Some NoOpeningDelimiter
      | [i] \<Rightarrow> Some NoClosingDelimiter
      | i # j # others \<Rightarrow>
          (let frontmatter = trim (slice s (i + 3) j);
               after_marker = after_first ''interface Props'' frontmatter
           in if \<not> sublist ''interface Props'' frontmatter then Some MissingProps
              else if CHR ''{'' \<notin> set after_marker then Some MissingOpenBrace
              else if never_closed (after_first ''{'' after_marker) then Some UnmatchedBrace
              else None))"

subsection \<open>Example sources\<close>

text \<open>The template of the parser's test "handles template with only a newline as body".\<close>

definition src_empty_body :: string where
  "src_empty_body =
     join [LF] [''---'', ''interface Props {'', ''    name: string;'', ''}'', ''---'', '''']"

text \<open>Sources that fail, one for each error.\<close>

definition src_no_delimiter :: string where
  "src_no_delimiter = ''no frontmatter at all''"

definition src_unterminated :: string where
  "src_unterminated =
     join [LF] [''---'', ''interface Props {'', ''    name: string;'', ''}'', ''Hello'']"

definition src_no_props :: string where
  "src_no_props = join [LF] [''---'', ''type Foo = string;'', ''---'', ''Hello'']"

definition src_no_brace :: string where
  "src_no_brace = join [LF] [''---'', ''interface Props'', ''---'', ''Hello'']"

definition src_unbalanced :: string where
  "src_unbalanced =
     join [LF] [''---'', ''interface Props {'', ''    a: {'', ''}'', ''---'', ''Hello'']"

text \<open>
  The declaration of claim C1, once on a single line as the claim writes it and once with a
  line break after each brace and each member.
\<close>

definition src_user_count_one_line :: string where
  "src_user_count_one_line =
     join [LF] [''---'',
       ''interface Props { user: { firstName: string; age: number } count: number }'',
       ''---'', ''${user.firstName}'']"

definition src_user_count_lines :: string where
  "src_user_count_lines =
     join [LF] [''---'',
       ''interface Props {'',
       ''    user: {'',
       ''        firstName: string;'',
       ''        age: number'',
       ''    }'',
       ''    count: number'',
       ''}'',
       ''---'', ''${user.firstName}'']"

text \<open>A frontmatter whose first line is a type import of the default form.\<close>

definition DQ :: char where
  "DQ = CHR 0x22"

definition default_import_line :: string where
  "default_import_line = ''import type User from '' @ [DQ] @ ''mod'' @ [DQ] @ '';''"

definition src_default_import :: string where
  "src_default_import =
     join [LF] [''---'', default_import_line, ''interface Props {'', ''    user: User'', ''}'',
       ''---'', ''${user.name}'']"

subsection \<open>The key scan, line by line\<close>

text \<open>
  A trimmed line matches "identifier, optional \<^verbatim>\<open>?\<close>, then \<^verbatim>\<open>:\<close>" with the identifier \<open>name\<close>:
  the line is a run of word characters, then white space, then at most one question mark,
  then white space, then a colon, and anything after it.
\<close>

definition key_pattern :: "string \<Rightarrow> string \<Rightarrow> bool" where
  "key_pattern t name =
     (\<exists>ws1 q ws2 rest.
        t = name @ ws1 @ q @ ws2 @ '':'' @ rest \<and>
        name \<noteq> [] \<and> list_all is_word name \<and>
        list_all is_space ws1 \<and> (q = [] \<or> q = ''?'') \<and> list_all is_space ws2)"

text \<open>What a line contributes when the depth at its start is \<open>d\<close>: its key at depth 0, nothing elsewhere.\<close>

definition contribution :: "int \<Rightarrow> string \<Rightarrow> string list" where
  "contribution d l =
     (if d = 0 then (case match_key (trim l) of Some name \<Rightarrow> [name] | None \<Rightarrow> []) else [])"

text \<open>The depth at the start of line \<open>k\<close>: the braces of the lines before it, counted from 0.\<close>

definition depth_at_line :: "string list \<Rightarrow> nat \<Rightarrow> int" where
  "depth_at_line ls k = sum_list (map (\<lambda>l. brace_balance (trim l)) (take k ls))"

definition line_keys :: "string list \<Rightarrow> string list" where
  "line_keys ls =
     concat (map (\<lambda>k. contribution (depth_at_line ls k) (ls ! k)) [0..<length ls])"

text \<open>
  A props body with an optional member, a member that opens a nested object on its own
  line, a nested member and a repeated name.
\<close>

definition props_body_example :: string where
  "props_body_example =
     join [LF] [''a?: string;'', ''user: {'', ''    inner: number;'', ''}'', ''a : number'']"

subsection \<open>The generated texts\<close>

definition dts_header :: string where
  "dts_header =
     ''declare const template: import('' @ [DQ] @ ''typemark'' @ [DQ] @ '').Template<{''"

text \<open>The first line gains four spaces; the other lines stay as they are.\<close>

definition indent_first :: "string list \<Rightarrow> string list" where
  "indent_first ls = (case ls of [] \<Rightarrow> [] | l # rest \<Rightarrow> (''    '' @ l) # rest)"

text \<open>The lines of a declaration document, in the order of claim C6.\<close>

definition dts_lines :: "ParsedTemplate \<Rightarrow> string list" where
  "dts_lines parsed =
     imports_of parsed @ (if imports_of parsed = [] then [] else [[]]) @
     preamble parsed @ (if preamble parsed = [] then [] else [[]]) @
     [dts_header] @
     indent_first (split_lines (propsBody parsed)) @
     [''}>;'', ''export default template;'', []]"

text \<open>The texts of a list, each followed by a line feed.\<close>

definition terminated :: "string list \<Rightarrow> string" where
  "terminated ls = concat (map (\<lambda>l. l @ [LF]) ls)"

text \<open>The destructuring prologue of a module, as one line, for a list of keys.\<close>

definition prologue_line :: "string list \<Rightarrow> string" where
  "prologue_line keys = ''    const { '' @ join '', '' keys @ '' } = props;'' @ [LF]"

text \<open>A parsed template with an import, a helper declaration and a nested props body.\<close>

definition parsed_example :: ParsedTemplate where
  "parsed_example =
     \<lparr> imports_of = [''import type { Address } from '' @ [DQ] @ ''./types'' @ [DQ] @ '';''],
       preamble = [''type Id = string;''],
       propsBody = join [LF] [''name: string;'', ''    address: Address;''],
       body = ''${name} lives at ${address}'',
       propKeys = [''name'', ''address''] \<rparr>"

definition parsed_static :: ParsedTemplate where
  "parsed_static =
     \<lparr> imports_of = [], preamble = [], propsBody = [], body = ''Static only'', propKeys = [] \<rparr>"

subsection \<open>The greeting template and the escaping\<close>

text \<open>
  The source of claim C7, once with the declaration on one line as the claim writes it, once
  with each member on a line of its own, as in the repository's test of the same template.
\<close>

definition src_greeting_one_line :: string where
  "src_greeting_one_line =
     join [LF] [''---'', ''interface Props { greeting: string; name: string; }'', ''---'',
       ''${greeting}, ${name}!'']"

definition src_greeting_lines :: string where
  "src_greeting_lines =
     join [LF] [''---'', ''interface Props {'', ''    greeting: string;'', ''    name: string;'',
       ''}'', ''---'', ''${greeting}, ${name}!'']"

text \<open>The three replacements of \<^const>\<open>escapedRaw\<close> as one pass over the text.\<close>

fun escape_pass :: "string \<Rightarrow> string" where
  "escape_pass [] = []"
| "escape_pass [c] =
     (if c = BACKSLASH then [BACKSLASH, BACKSLASH]
      else if c = BACKTICK then [BACKSLASH, BACKTICK] else [c])"
| "escape_pass (c # d # cs) =
     (if c = BACKSLASH then BACKSLASH # BACKSLASH # escape_pass (d # cs)
      else if c = BACKTICK then BACKSLASH # BACKTICK # escape_pass (d # cs)
      else if c = CHR ''$'' \<and> d = CHR ''{'' then BACKSLASH # CHR ''$'' # CHR ''{'' # escape_pass cs
      else c # escape_pass (d # cs))"

text \<open>The first two replacements.\<close>

definition pass12 :: "string \<Rightarrow> string" where
  "pass12 s =
     replace_all [BACKTICK] [BACKSLASH, BACKTICK] (replace_all [BACKSLASH] [BACKSLASH, BACKSLASH] s)"

text \<open>A template whose body has two lines, separated by a carriage return and a line feed.\<close>

definition crlf_template :: ParsedTemplate where
  "crlf_template =
     \<lparr> imports_of = [], preamble = [], propsBody = ''x: string;'',
       body = ''a'' @ [CR, LF] @ ''b'', propKeys = [''x''] \<rparr>"

subsection \<open>The declarations of the preamble\<close>

text \<open>
  A text starts with a declaration of the preamble: the keyword \<^verbatim>\<open>interface\<close> or \<^verbatim>\<open>type\<close>, white
  space, and an identifier (a whole run of word characters) other than \<^verbatim>\<open>Props\<close>; \<open>n\<close> is the
  length of the three together.
\<close>

definition declaration_head :: "string \<Rightarrow> nat \<Rightarrow> bool" where
  "declaration_head t n =
     (\<exists>kw ws ident rest.
        t = kw @ ws @ ident @ rest \<and> (kw = ''interface'' \<or> kw = ''type'') \<and>
        ws \<noteq> [] \<and> list_all is_space ws \<and>
        ident \<noteq> [] \<and> list_all is_word ident \<and> (rest = [] \<or> \<not> is_word (hd rest)) \<and>
        ident \<noteq> ''Props'' \<and> n = length kw + length ws + length ident)"

text \<open>
  The matches of a search that goes from left to right and resumes behind each match: \<open>L\<close>
  lists, in increasing order, the indices at which a declaration starts and which do not lie
  inside the text (keyword, white space and identifier) of an earlier listed declaration.
\<close>

definition resumes_behind :: "string \<Rightarrow> nat list \<Rightarrow> bool" where
  "resumes_behind fm L =
     (sorted_wrt (<) L \<and>
      (\<forall>p. (p \<in> set L) =
         ((\<exists>n. declaration_head (drop p fm) n) \<and>
          \<not> (\<exists>q m. q \<in> set L \<and> declaration_head (drop q fm) m \<and> q < p \<and> p < q + m))))"

text \<open>
  A text runs through the brace that closes its first opening brace: from that opening brace
  on, it has as many closing braces as opening ones.
\<close>

definition closes :: "string \<Rightarrow> bool" where
  "closes u =
     (case dropWhile (\<lambda>c. c \<noteq> CHR ''{'') u of [] \<Rightarrow> False | v \<Rightarrow> brace_balance v = 0)"

text \<open>
  The span of an interface declaration at the head of \<open>t\<close>: none when \<open>t\<close> has no opening
  brace; else the shortest prefix of \<open>t\<close> that runs through the closing brace, or the whole
  of \<open>t\<close> when no prefix does; trimmed.
\<close>

definition interface_span :: "string \<Rightarrow> string option" where
  "interface_span t =
     (if CHR ''{'' \<notin> set t then None
      else Some (trim (case find (\<lambda>n. closes (take n t)) [0..<Suc (length t)] of
                         Some n \<Rightarrow> take n t | None \<Rightarrow> t)))"

text \<open>The span of a type alias at the head of \<open>t\<close>: up to the next line feed or the end of \<open>t\<close>, trimmed.\<close>

definition alias_span :: "string \<Rightarrow> string" where
  "alias_span t = trim (takeWhile (\<lambda>c. c \<noteq> LF) t)"

definition declaration_span :: "string \<Rightarrow> string option" where
  "declaration_span t =
     (if prefix ''interface'' t then interface_span t else Some (alias_span t))"

text \<open>
  A frontmatter with a helper interface, a type alias and the Props declaration, one whose
  helper interface has no body, and one in which a declaration (\<^verbatim>\<open>type extends\<close>, at index 13)
  starts inside the text of another.
\<close>

definition fm_example :: string where
  "fm_example =
     join [LF] [''interface Hobby {'', ''    name: string;'', ''}'', ''type Id = string;'', '''',
       ''interface Props {'', ''    hobby: Hobby'', ''}'']"

definition fm_no_brace :: string where
  "fm_no_brace = join [LF] [''interface Props {'', ''    a: string'', ''}'', ''interface Foo'']"

definition fm_subtype :: string where
  "fm_subtype = join [LF] [''interface Subtype extends Base {'', ''    x: string'', ''}'']"

section \<open>Properties of the string helpers and of the parser\<close>

lemma index_from_None: "index_from pat t i = None \<longleftrightarrow> \<not> sublist pat t"
  by (induction t arbitrary: i) (auto simp: sublist_Cons_right)

lemma index_from_Some:
  "index_from pat t i = Some k \<Longrightarrow>
     i \<le> k \<and> k - i \<le> length t \<and> prefix pat (drop (k - i) t) \<and> (\<forall>m < k - i. \<not> prefix pat (drop m t))"
proof (induction t arbitrary: i)
  case Nil
  then show ?case by (auto split: if_splits)
next
  case (Cons c cs)
  show ?case
  proof (cases "prefix pat (c # cs)")
    case True
    with Cons.prems show ?thesis by auto
  next
    case False
    with Cons.prems have r: "index_from pat cs (Suc i) = Some k" by simp
    from Cons.IH[OF r] have a: "Suc i \<le> k" "k - Suc i \<le> length cs" "prefix pat (drop (k - Suc i) cs)"
      "\<forall>m < k - Suc i. \<not> prefix pat (drop m cs)" by auto
    have e: "k - i = Suc (k - Suc i)" using a(1) by simp
    have "\<forall>m < k - i. \<not> prefix pat (drop m (c # cs))"
    proof (intro allI impI)
      fix m assume m: "m < k - i"
      show "\<not> prefix pat (drop m (c # cs))"
      proof (cases m)
        case 0
        then show ?thesis using False by simp
      next
        case (Suc m')
        then show ?thesis using a(4) m e by simp
      qed
    qed
    then show ?thesis using a e by simp
  qed
qed

lemma prefix_delim: "prefix ''---'' (a # b # c # cs) \<longleftrightarrow> a = CHR ''-'' \<and> b = CHR ''-'' \<and> c = CHR ''-''"
  by auto

lemma occurrences_from_index:
  "occurrences_from t i =
     (case index_from ''---'' t i of
        None \<Rightarrow> []
      | Some k \<Rightarrow> k # occurrences_from (drop (k - i + 3) t) (k + 3))"
proof (induction t i rule: occurrences_from.induct)
  case (1 a b c cs i)
  show ?case
  proof (cases "a = CHR ''-'' \<and> b = CHR ''-'' \<and> c = CHR ''-''")
    case True
    then show ?thesis by simp
  next
    case False
    then have np: "\<not> prefix ''---'' (a # b # c # cs)" using prefix_delim by blast
    have ih: "occurrences_from (b # c # cs) (Suc i) =
      (case index_from ''---'' (b # c # cs) (Suc i) of None \<Rightarrow> []
       | Some k \<Rightarrow> k # occurrences_from (drop (k - Suc i + 3) (b # c # cs)) (k + 3))"
      using 1(2) False by blast
    have l: "occurrences_from (a # b # c # cs) i = occurrences_from (b # c # cs) (Suc i)"
      using False by auto
    have r: "index_from ''---'' (a # b # c # cs) i = index_from ''---'' (b # c # cs) (Suc i)"
      using np by (simp del: prefix_code)
    show ?thesis
    proof (cases "index_from ''---'' (b # c # cs) (Suc i)")
      case None
      then show ?thesis using l r ih by simp
    next
      case (Some k)
      then have "Suc i \<le> k" using index_from_Some by blast
      then have "k - i + 3 = Suc (k - Suc i + 3)" by simp
      then have "drop (k - i + 3) (a # b # c # cs) = drop (k - Suc i + 3) (b # c # cs)"
        by (simp del: drop_Suc_Cons add: drop_Suc_Cons[of _ a])
      then show ?thesis using l r ih Some by simp
    qed
  qed
qed simp_all

lemma prefix_drop_length: "prefix pat (drop k s) \<Longrightarrow> pat \<noteq> [] \<Longrightarrow> k + length pat \<le> length s"
proof -
  assume p: "prefix pat (drop k s)" and n: "pat \<noteq> []"
  from p have "length pat \<le> length (drop k s)" by (rule prefix_length_le)
  then have "length pat \<le> length s - k" by simp
  moreover have "0 < length pat" using n by simp
  ultimately show ?thesis by arith
qed

lemma indexOf_0: "indexOf s pat 0 = index_from pat s 0"
  by (simp add: indexOf_def)

lemma indexOf_le: "n \<le> length s \<Longrightarrow> indexOf s pat n = index_from pat (drop n s) n"
  by (simp add: indexOf_def min_def)

lemma occurrences_first:
  assumes "delimiter_occurrences s = i # rest"
  shows "indexOf s ''---'' 0 = Some i" and "i + 3 \<le> length s"
    and "occurrences_from (drop (i + 3) s) (i + 3) = rest"
proof -
  from assms have a: "(case index_from ''---'' s 0 of None \<Rightarrow> []
      | Some k \<Rightarrow> k # occurrences_from (drop (k - 0 + 3) s) (k + 3)) = i # rest"
    unfolding delimiter_occurrences_def using occurrences_from_index[of s 0] by simp
  then obtain k where k: "index_from ''---'' s 0 = Some k" by (cases "index_from ''---'' s 0") auto
  with a have ki: "k = i" and r: "occurrences_from (drop (i + 3) s) (i + 3) = rest" by auto
  show "indexOf s ''---'' 0 = Some i" using k ki by (simp add: indexOf_0)
  have "prefix ''---'' (drop i s)" using index_from_Some[OF k] ki by simp
  then show "i + 3 \<le> length s" using prefix_drop_length[of "''---''" i s] by simp
  show "occurrences_from (drop (i + 3) s) (i + 3) = rest" by (rule r)
qed

lemma occurrences_second:
  assumes "delimiter_occurrences s = i # j # others"
  shows "indexOf s ''---'' (i + 3) = Some j"
proof -
  have le: "i + 3 \<le> length s" and r: "occurrences_from (drop (i + 3) s) (i + 3) = j # others"
    using occurrences_first[OF assms] by auto
  from r have "(case index_from ''---'' (drop (i + 3) s) (i + 3) of None \<Rightarrow> []
      | Some k \<Rightarrow> k # occurrences_from (drop (k - (i + 3) + 3) (drop (i + 3) s)) (k + 3)) = j # others"
    using occurrences_from_index[of "drop (i + 3) s" "i + 3"] by simp
  then have "index_from ''---'' (drop (i + 3) s) (i + 3) = Some j"
    by (cases "index_from ''---'' (drop (i + 3) s) (i + 3)") auto
  then show ?thesis using le by (simp add: indexOf_le)
qed

lemma occurrences_single:
  assumes "delimiter_occurrences s = [i]"
  shows "indexOf s ''---'' (i + 3) = None"
proof -
  have le: "i + 3 \<le> length s" and r: "occurrences_from (drop (i + 3) s) (i + 3) = []"
    using occurrences_first[OF assms] by auto
  from r have "(case index_from ''---'' (drop (i + 3) s) (i + 3) of None \<Rightarrow> []
      | Some k \<Rightarrow> k # occurrences_from (drop (k - (i + 3) + 3) (drop (i + 3) s)) (k + 3)) = []"
    using occurrences_from_index[of "drop (i + 3) s" "i + 3"] by simp
  then have "index_from ''---'' (drop (i + 3) s) (i + 3) = None"
    by (cases "index_from ''---'' (drop (i + 3) s) (i + 3)") auto
  then show ?thesis using le by (simp add: indexOf_le)
qed

lemma occurrences_none:
  assumes "delimiter_occurrences s = []"
  shows "indexOf s ''---'' 0 = None"
proof -
  from assms have "(case index_from ''---'' s 0 of None \<Rightarrow> []
      | Some k \<Rightarrow> k # occurrences_from (drop (k - 0 + 3) s) (k + 3)) = []"
    unfolding delimiter_occurrences_def using occurrences_from_index[of s 0] by simp
  then have "index_from ''---'' s 0 = None" by (cases "index_from ''---'' s 0") auto
  then show ?thesis by (simp add: indexOf_0)
qed

lemma splitFrontmatter_cases:
  "splitFrontmatter s =
     (case delimiter_occurrences s of
        [] \<Rightarrow> Inl NoOpeningDelimiter
      | [i] \<Rightarrow> Inl NoClosingDelimiter
      | i # j # others \<Rightarrow> Inr (trim (slice s (i + 3) j), trim (drop (j + 3) s)))"
proof (cases "delimiter_occurrences s")
  case Nil
  then show ?thesis using occurrences_none[OF Nil]
    by (simp add: splitFrontmatter_def FRONTMATTER_DELIMITER_def numeral_3_eq_3)
next
  case (Cons i rest)
  note c = Cons
  show ?thesis
  proof (cases rest)
    case Nil
    with c have s: "delimiter_occurrences s = [i]" by simp
    show ?thesis using occurrences_first(1)[OF s] occurrences_single[OF s] s
      by (simp add: splitFrontmatter_def FRONTMATTER_DELIMITER_def numeral_3_eq_3)
  next
    case (Cons j others)
    with c have s: "delimiter_occurrences s = i # j # others" by simp
    show ?thesis using occurrences_first(1)[OF s] occurrences_second[OF s] s
      by (simp add: splitFrontmatter_def FRONTMATTER_DELIMITER_def numeral_3_eq_3)
  qed
qed

lemma trim_all_space: "list_all is_space t \<Longrightarrow> trim t = []"
proof -
  assume "list_all is_space t"
  then have d: "dropWhile is_space t = []" by (induction t) auto
  show ?thesis unfolding trim_def d by simp
qed

lemma after_first_index:
  "index_from pat t i = Some k \<Longrightarrow> pat \<noteq> [] \<Longrightarrow> after_first pat t = drop (k - i + length pat) t"
proof (induction t arbitrary: i)
  case Nil
  then show ?case by simp
next
  case (Cons c cs)
  show ?case
  proof (cases "prefix pat (c # cs)")
    case True
    with Cons.prems show ?thesis by simp
  next
    case False
    with Cons.prems have r: "index_from pat cs (Suc i) = Some k" by simp
    then have "Suc i \<le> k" using index_from_Some by blast
    then have e: "k - i + length pat = Suc (k - Suc i + length pat)" by simp
    have "after_first pat (c # cs) = after_first pat cs" using False by simp
    also have "\<dots> = drop (k - Suc i + length pat) cs" using Cons.IH[OF r Cons.prems(2)] .
    also have "\<dots> = drop (k - i + length pat) (c # cs)" unfolding e by simp
    finally show ?thesis .
  qed
qed

lemma sublist_single: "sublist [c] t \<longleftrightarrow> c \<in> set t"
  by (induction t) (auto simp: sublist_Cons_right)

lemma brace_delta_balance: "brace_balance (c # u) = brace_delta c 0 + brace_balance u"
  by (simp add: brace_balance_def brace_delta_def)

lemma brace_scan_zero: "brace_scan t i 0 = (i, 0)"
  by (cases t) auto

lemma brace_scan_depth:
  "0 < d \<Longrightarrow> (snd (brace_scan t i d) \<noteq> 0) = (\<forall>u. prefix u t \<longrightarrow> 0 < d + brace_balance u)"
proof (induction t arbitrary: i d)
  case Nil
  then show ?case by (simp add: brace_balance_def)
next
  case (Cons c cs)
  let ?d1 = "d + brace_delta c 0"
  have step: "brace_scan (c # cs) i d = brace_scan cs (Suc i) ?d1"
    using Cons.prems by (simp add: brace_delta_def)
  have nonneg: "0 \<le> ?d1" using Cons.prems by (simp add: brace_delta_def)
  have pre: "(\<forall>u. prefix u (c # cs) \<longrightarrow> 0 < d + brace_balance u) =
             (\<forall>u. prefix u cs \<longrightarrow> 0 < ?d1 + brace_balance u)"
  proof
    assume a: "\<forall>u. prefix u (c # cs) \<longrightarrow> 0 < d + brace_balance u"
    show "\<forall>u. prefix u cs \<longrightarrow> 0 < ?d1 + brace_balance u"
    proof (intro allI impI)
      fix u assume "prefix u cs"
      then have "prefix (c # u) (c # cs)" by simp
      with a have "0 < d + brace_balance (c # u)" by blast
      then show "0 < ?d1 + brace_balance u" by (simp add: brace_delta_balance)
    qed
  next
    assume a: "\<forall>u. prefix u cs \<longrightarrow> 0 < ?d1 + brace_balance u"
    show "\<forall>u. prefix u (c # cs) \<longrightarrow> 0 < d + brace_balance u"
    proof (intro allI impI)
      fix u assume p: "prefix u (c # cs)"
      show "0 < d + brace_balance u"
      proof (cases u)
        case Nil
        then show ?thesis using Cons.prems by (simp add: brace_balance_def)
      next
        case (Cons x u')
        with p have "x = c" "prefix u' cs" by auto
        with a have "0 < ?d1 + brace_balance u'" by blast
        then show ?thesis using Cons \<open>x = c\<close> by (simp add: brace_delta_balance)
      qed
    qed
  qed
  show ?case
  proof (cases "?d1 = 0")
    case True
    have "\<not> (\<forall>u. prefix u cs \<longrightarrow> 0 < ?d1 + brace_balance u)"
      using True by (auto simp: brace_balance_def intro: exI[of _ "[]"])
    then show ?thesis using step True pre by (simp add: brace_scan_zero)
  next
    case False
    then have "0 < ?d1" using nonneg by simp
    from Cons.IH[OF this] show ?thesis using step pre by simp
  qed
qed

lemma never_closed_iff: "never_closed t = (\<forall>u. prefix u t \<longrightarrow> 0 < 1 + brace_balance u)"
  by (auto simp: never_closed_def list_all_iff in_set_prefixes)

lemma len_marker: "length ''interface Props'' = 15"
  by simp

lemma extractPropsBody_alt:
  "extractPropsBody fm =
     (case indexOf fm ''interface Props'' 0 of
        None \<Rightarrow> Inl MissingProps
      | Some m \<Rightarrow>
          (case indexOf fm ''{'' (m + 15) of
             None \<Rightarrow> Inl MissingOpenBrace
           | Some ob \<Rightarrow>
               (let (i, depth) = brace_scan (drop (ob + 1) fm) (ob + 1) 1
                in if depth \<noteq> 0 then Inl UnmatchedBrace
                   else Inr (trim (slice fm (ob + 1) (i - 1))))))"
  unfolding extractPropsBody_def Let_def len_marker by (rule refl)

lemma extractPropsBody_cases:
  "(case extractPropsBody fm of Inl e \<Rightarrow> Some e | Inr pb \<Rightarrow> None) =
     (let after_marker = after_first ''interface Props'' fm
      in if \<not> sublist ''interface Props'' fm then Some MissingProps
         else if CHR ''{'' \<notin> set after_marker then Some MissingOpenBrace
         else if never_closed (after_first ''{'' after_marker) then Some UnmatchedBrace
         else None)"
proof (cases "index_from ''interface Props'' fm 0")
  case None
  then have "\<not> sublist ''interface Props'' fm" by (simp add: index_from_None)
  then show ?thesis using None by (simp add: extractPropsBody_alt indexOf_0)
next
  case (Some m)
  then have sub: "sublist ''interface Props'' fm" using index_from_None[of "''interface Props''" fm 0] by simp
  have am: "after_first ''interface Props'' fm = drop (m + 15) fm"
    using after_first_index[OF Some] unfolding len_marker by simp
  have "prefix ''interface Props'' (drop m fm)" using index_from_Some[OF Some] by simp
  then have le: "m + 15 \<le> length fm"
    using prefix_drop_length[of "''interface Props''" m fm] unfolding len_marker by simp
  have io: "indexOf fm ''{'' (m + 15) = index_from ''{'' (drop (m + 15) fm) (m + 15)"
    using le by (rule indexOf_le)
  show ?thesis
  proof (cases "index_from ''{'' (drop (m + 15) fm) (m + 15)")
    case None
    then have "CHR ''{'' \<notin> set (drop (m + 15) fm)"
      using index_from_None[of "''{''" "drop (m + 15) fm" "m + 15"]
        sublist_single[of "CHR ''{''" "drop (m + 15) fm"] by simp
    then show ?thesis using Some None sub am io
      by (simp add: extractPropsBody_alt indexOf_0)
  next
    case (Some ob)
    note ob = Some
    then have inset: "CHR ''{'' \<in> set (drop (m + 15) fm)"
      using index_from_None[of "''{''" "drop (m + 15) fm" "m + 15"]
        sublist_single[of "CHR ''{''" "drop (m + 15) fm"] by simp
    have "m + 15 \<le> ob" using index_from_Some[OF ob] by simp
    then have ab: "after_first ''{'' (drop (m + 15) fm) = drop (ob + 1) fm"
      using after_first_index[OF ob] by (simp add: add.commute)
    obtain i d where bs: "brace_scan (drop (ob + 1) fm) (ob + 1) 1 = (i, d)" by fastforce
    have "(d \<noteq> 0) = never_closed (drop (ob + 1) fm)"
      using brace_scan_depth[of 1 "drop (ob + 1) fm" "ob + 1"] bs by (simp add: never_closed_iff)
    then show ?thesis using \<open>index_from ''interface Props'' fm 0 = Some m\<close> ob sub am io inset ab bs
      by (simp add: extractPropsBody_alt indexOf_0)
  qed
qed

lemma parse_outcome:
  "(case parse s of Inl e \<Rightarrow> Some e | Inr p \<Rightarrow> None) = expected_failure s"
proof (cases "delimiter_occurrences s")
  case Nil
  then show ?thesis using splitFrontmatter_cases[of s]
    by (simp add: parse_def expected_failure_def Let_def)
next
  case (Cons i rest)
  note c = Cons
  show ?thesis
  proof (cases rest)
    case Nil
    then show ?thesis using c splitFrontmatter_cases[of s]
      by (simp add: parse_def expected_failure_def Let_def)
  next
    case (Cons j others)
    then have sf: "splitFrontmatter s = Inr (trim (slice s (i + 3) j), trim (drop (j + 3) s))"
      using c splitFrontmatter_cases[of s] by simp
    have "(case parse s of Inl e \<Rightarrow> Some e | Inr p \<Rightarrow> None) =
          (case extractPropsBody (trim (slice s (i + 3) j)) of Inl e \<Rightarrow> Some e | Inr pb \<Rightarrow> None)"
      using sf by (simp add: parse_def Let_def split: sum.splits)
    then show ?thesis using c Cons extractPropsBody_cases[of "trim (slice s (i + 3) j)"]
      by (simp add: expected_failure_def Let_def)
  qed
qed

lemma error_messages_distinct:
  "distinct (map error_message
     [NoOpeningDelimiter, NoClosingDelimiter, MissingProps, MissingOpenBrace, UnmatchedBrace])"
  by simp

lemma error_messages_identify:
  "sublist ''no opening'' (error_message NoOpeningDelimiter) \<and>
   sublist ''no closing'' (error_message NoClosingDelimiter) \<and>
   sublist ''Missing `interface Props'' (error_message MissingProps)"
  by code_simp

lemma occurrences_positions:
  assumes "delimiter_occurrences s = i # j # others"
  shows "prefix ''---'' (drop i s) \<and> (\<forall>k<i. \<not> prefix ''---'' (drop k s)) \<and>
         i + 3 \<le> j \<and> prefix ''---'' (drop j s) \<and>
         (\<forall>k. i + 3 \<le> k \<and> k < j \<longrightarrow> \<not> prefix ''---'' (drop k s))"
proof -
  have f: "index_from ''---'' s 0 = Some i" and le: "i + 3 \<le> length s"
    using occurrences_first(1,2)[OF assms] by (simp_all add: indexOf_0)
  have "indexOf s ''---'' (i + 3) = Some j" using occurrences_second[OF assms] .
  then have g: "index_from ''---'' (drop (i + 3) s) (i + 3) = Some j"
    using le by (simp add: indexOf_le)
  have a: "prefix ''---'' (drop i s)" "\<forall>k<i. \<not> prefix ''---'' (drop k s)"
    using index_from_Some[OF f] by simp_all
  have b: "i + 3 \<le> j" "prefix ''---'' (drop (j - (i + 3)) (drop (i + 3) s))"
    "\<forall>m<j - (i + 3). \<not> prefix ''---'' (drop m (drop (i + 3) s))"
    using index_from_Some[OF g] by blast+
  have "drop (j - (i + 3)) (drop (i + 3) s) = drop j s" using b(1) by simp
  then have c: "prefix ''---'' (drop j s)" using b(2) by metis
  have d: "\<forall>k. i + 3 \<le> k \<and> k < j \<longrightarrow> \<not> prefix ''---'' (drop k s)"
  proof (intro allI impI)
    fix k assume k: "i + 3 \<le> k \<and> k < j"
    then have "k - (i + 3) < j - (i + 3)" by arith
    then have "\<not> prefix ''---'' (drop (k - (i + 3)) (drop (i + 3) s))" using b(3) by blast
    moreover have "drop (k - (i + 3)) (drop (i + 3) s) = drop k s" using k by simp
    ultimately show "\<not> prefix ''---'' (drop k s)" by metis
  qed
  show ?thesis using a b(1) c d by blast
qed

lemma single_position:
  assumes "\<exists>!k. prefix ''---'' (drop k s)"
  shows "\<exists>i. delimiter_occurrences s = [i]"
proof -
  from assms obtain k where k: "prefix ''---'' (drop k s)"
    and u: "\<And>m. prefix ''---'' (drop m s) \<Longrightarrow> m = k" by blast
  show ?thesis
  proof (cases "delimiter_occurrences s")
    case Nil
    then have "index_from ''---'' s 0 = None" using occurrences_none by (simp add: indexOf_0)
    then have "\<not> sublist ''---'' s" by (simp add: index_from_None)
    moreover have "sublist ''---'' s"
      using k by (metis append_take_drop_id prefix_def sublist_appendI)
    ultimately show ?thesis by blast
  next
    case (Cons i rest)
    note c = Cons
    show ?thesis
    proof (cases rest)
      case Nil
      then show ?thesis using c by simp
    next
      case (Cons j others)
      then have "delimiter_occurrences s = i # j # others" using c by simp
      from occurrences_positions[OF this] have "i = k" "j = k" "i + 3 \<le> j" using u by auto
      then show ?thesis by simp
    qed
  qed
qed

lemma prefix_drop_sublist: "prefix pat (drop k s) \<Longrightarrow> sublist pat s"
  by (metis append_take_drop_id prefix_def sublist_appendI)

lemma no_delimiter_occurrences: "\<not> sublist ''---'' s \<Longrightarrow> delimiter_occurrences s = []"
proof -
  assume a: "\<not> sublist ''---'' s"
  then have "index_from ''---'' s 0 = None" by (simp add: index_from_None)
  then show ?thesis
    unfolding delimiter_occurrences_def using occurrences_from_index[of s 0] by simp
qed

section \<open>Properties of the key scan\<close>

lemma space_not_word: "is_space c \<Longrightarrow> \<not> is_word c"
  by (auto simp: is_space_def is_word_def)

lemma colon_class: "\<not> is_word (CHR '':'')" "\<not> is_space (CHR '':'')"
  by (simp_all add: is_space_def is_word_def)

lemma question_class: "\<not> is_word (CHR ''?'')" "\<not> is_space (CHR ''?'')"
  by (simp_all add: is_space_def is_word_def)

lemma fold_brace_delta: "fold brace_delta t d = d + brace_balance t"
  by (induction t arbitrary: d) (auto simp: brace_balance_def brace_delta_def)

lemma match_key_Nil: "match_key [] = None"
  by (simp add: match_key_def)

lemma brace_balance_Nil: "brace_balance [] = 0"
  by (simp add: brace_balance_def)

lemma propKeys_loop_step:
  "propKeys_loop (l # ls) d keys =
     propKeys_loop ls (d + brace_balance (trim l)) (keys @ contribution d l)"
  by (auto simp: contribution_def Let_def fold_brace_delta match_key_Nil brace_balance_Nil
      split: option.splits)

lemma propKeys_loop_eq:
  "propKeys_loop ls d keys =
     keys @ concat (map (\<lambda>k. contribution (d + depth_at_line ls k) (ls ! k)) [0..<length ls])"
proof (induction ls arbitrary: d keys)
  case Nil
  then show ?case by simp
next
  case (Cons l ls)
  have "propKeys_loop (l # ls) d keys =
      propKeys_loop ls (d + brace_balance (trim l)) (keys @ contribution d l)"
    by (rule propKeys_loop_step)
  also have "\<dots> = (keys @ contribution d l) @
      concat (map (\<lambda>k. contribution (d + brace_balance (trim l) + depth_at_line ls k) (ls ! k))
        [0..<length ls])"
    by (rule Cons.IH)
  also have "\<dots> = keys @
      concat (map (\<lambda>k. contribution (d + depth_at_line (l # ls) k) ((l # ls) ! k))
        [0..<length (l # ls)])"
    by (simp add: map_upt_Suc depth_at_line_def add.assoc del: upt_Suc)
  finally show ?case .
qed

lemma extractPropKeys_line_keys: "extractPropKeys pb = line_keys (split_lines pb)"
  by (simp add: extractPropKeys_def line_keys_def propKeys_loop_eq)

lemma takeWhile_run:
  "list_all P xs \<Longrightarrow> (ys = [] \<or> \<not> P (hd ys)) \<Longrightarrow> takeWhile P (xs @ ys) = xs"
  by (cases ys) (auto simp: list_all_iff takeWhile_append2)

lemma dropWhile_run:
  "list_all P xs \<Longrightarrow> (ys = [] \<or> \<not> P (hd ys)) \<Longrightarrow> dropWhile P (xs @ ys) = ys"
  by (cases ys) (auto simp: list_all_iff dropWhile_append2)

lemma match_key_complete:
  assumes "key_pattern t name"
  shows "match_key t = Some name"
proof -
  from assms obtain ws1 q ws2 rest where
    t: "t = name @ ws1 @ q @ ws2 @ '':'' @ rest" and ne: "name \<noteq> []" and
    w: "list_all is_word name" and s1: "list_all is_space ws1" and
    q: "q = [] \<or> q = ''?''" and s2: "list_all is_space ws2"
    unfolding key_pattern_def by blast
  let ?tail = "ws1 @ q @ ws2 @ '':'' @ rest"
  have hd_tail: "?tail = [] \<or> \<not> is_word (hd ?tail)"
  proof (cases ws1)
    case Nil
    note n1 = Nil
    show ?thesis
    proof (cases "q = []")
      case True
      show ?thesis
      proof (cases ws2)
        case Nil
        then show ?thesis using n1 True colon_class by simp
      next
        case (Cons c cs)
        then have "is_space c" using s2 by simp
        then show ?thesis using n1 True Cons space_not_word by simp
      qed
    next
      case False
      then have "q = ''?''" using q by simp
      then show ?thesis using n1 question_class by simp
    qed
  next
    case (Cons c cs)
    then have "is_space c" using s1 by simp
    then show ?thesis using Cons space_not_word by simp
  qed
  have tw: "takeWhile is_word t = name" unfolding t using takeWhile_run[OF w hd_tail] .
  have dw: "dropWhile is_word t = ?tail" unfolding t using dropWhile_run[OF w hd_tail] .
  let ?tail2 = "ws2 @ '':'' @ rest"
  have d2: "dropWhile is_space ?tail2 = '':'' @ rest"
    using dropWhile_run[OF s2, of "'':'' @ rest"] colon_class by simp
  show ?thesis
  proof (cases "q = []")
    case True
    have "list_all is_space (ws1 @ ws2)" using s1 s2 by simp
    then have "dropWhile is_space ((ws1 @ ws2) @ '':'' @ rest) = '':'' @ rest"
      using dropWhile_run[of is_space "ws1 @ ws2" "'':'' @ rest"] colon_class by simp
    then have r1: "dropWhile is_space ?tail = '':'' @ rest" using True by simp
    show ?thesis unfolding match_key_def Let_def tw dw r1 using ne colon_class by simp
  next
    case False
    then have qq: "q = ''?''" using q by simp
    have r1: "dropWhile is_space ?tail = ''?'' @ ?tail2"
      using dropWhile_run[OF s1, of "''?'' @ ?tail2"] question_class qq by simp
    show ?thesis unfolding match_key_def Let_def tw dw r1 using ne d2 by simp
  qed
qed

lemma optional_mark:
  "(case r of c # cs \<Rightarrow> if c = CHR ''?'' then cs else r | [] \<Rightarrow> r) =
     drop (length (if prefix ''?'' r then ''?'' else [])) r"
  "r = (if prefix ''?'' r then ''?'' else []) @ drop (length (if prefix ''?'' r then ''?'' else [])) r"
  by (cases r; auto)+

lemma match_key_sound:
  assumes "match_key t = Some name"
  shows "key_pattern t name"
proof -
  let ?r0 = "dropWhile is_word t"
  let ?r1 = "dropWhile is_space ?r0"
  let ?q = "if prefix ''?'' ?r1 then ''?'' else []"
  let ?r2 = "drop (length ?q) ?r1"
  let ?r3 = "dropWhile is_space ?r2"
  have r2: "(case ?r1 of c # cs \<Rightarrow> if c = CHR ''?'' then cs else ?r1 | [] \<Rightarrow> ?r1) = ?r2"
    by (rule optional_mark(1))
  from assms have name: "name = takeWhile is_word t" and ne: "name \<noteq> []"
    and p: "prefix '':'' ?r3"
    unfolding match_key_def Let_def r2 by (auto split: if_splits)
  from p obtain rest where rest: "?r3 = '':'' @ rest" by (auto simp: prefix_def)
  have a: "t = name @ ?r0" using name by simp
  have b: "?r0 = takeWhile is_space ?r0 @ ?r1" by simp
  have c: "?r1 = ?q @ ?r2" by (rule optional_mark(2))
  have d: "?r2 = takeWhile is_space ?r2 @ ?r3" by simp
  have "t = name @ takeWhile is_space ?r0 @ ?q @ takeWhile is_space ?r2 @ '':'' @ rest"
    using a b c d rest by metis
  moreover have "list_all is_word name" unfolding name list_all_iff
    by (auto dest: set_takeWhileD)
  moreover have "list_all is_space (takeWhile is_space ?r0)" unfolding list_all_iff
    by (auto dest: set_takeWhileD)
  moreover have "list_all is_space (takeWhile is_space ?r2)" unfolding list_all_iff
    by (auto dest: set_takeWhileD)
  moreover have "?q = [] \<or> ?q = ''?''" by simp
  ultimately show ?thesis unfolding key_pattern_def using ne by blast
qed

lemma match_key_iff: "(match_key t = Some name) = key_pattern t name"
  using match_key_sound match_key_complete by blast

section \<open>Properties of the generated texts\<close>

lemma fold_push: "fold (\<lambda>x ls. ls @ [x]) xs acc = acc @ xs"
  by (induction xs arbitrary: acc) auto

lemma fold_push_later:
  "fold (\<lambda>(i, line) ls. if i = (0::nat) then ls @ [p @ line] else ls @ [line])
     (enumerate (Suc n) xs) acc = acc @ xs"
  by (induction xs arbitrary: n acc) auto

lemma fold_push_indent:
  "fold (\<lambda>(i, line) ls. if i = (0::nat) then ls @ [p @ line] else ls @ [line])
     (enumerate 0 xs) acc = acc @ (case xs of [] \<Rightarrow> [] | l # rest \<Rightarrow> (p @ l) # rest)"
  by (cases xs) (auto simp: fold_push_later)

lemma split_lines_not_Nil: "split_lines s \<noteq> []"
  by (induction s) (auto split: list.splits)

lemma join_split_lines: "join [LF] (split_lines s) = s"
proof (induction s)
  case Nil
  then show ?case by simp
next
  case (Cons c cs)
  obtain l ls where sp: "split_lines cs = l # ls"
    using split_lines_not_Nil[of cs] by (cases "split_lines cs") auto
  show ?case
  proof (cases "c = LF")
    case True
    then show ?thesis using Cons sp by simp
  next
    case False
    have "join [LF] ((c # l) # ls) = c # join [LF] (l # ls)" by (cases ls) auto
    then show ?thesis using False Cons sp by simp
  qed
qed

lemma join_append: "ys \<noteq> [] \<Longrightarrow> join [LF] (xs @ ys) = terminated xs @ join [LF] ys"
proof (induction xs)
  case Nil
  then show ?case by (simp add: terminated_def)
next
  case (Cons x xs)
  then obtain z zs where "xs @ ys = z # zs" by (cases "xs @ ys") auto
  then show ?case using Cons by (simp add: terminated_def)
qed

lemma join_indent_first: "join [LF] (indent_first (split_lines s)) = ''    '' @ s"
proof -
  obtain l ls where sp: "split_lines s = l # ls"
    using split_lines_not_Nil[of s] by (cases "split_lines s") auto
  have "join [LF] ((''    '' @ l) # ls) = ''    '' @ join [LF] (l # ls)" by (cases ls) auto
  then show ?thesis using sp join_split_lines[of s] by (simp add: indent_first_def)
qed

lemma join_append2:
  "xs \<noteq> [] \<Longrightarrow> ys \<noteq> [] \<Longrightarrow> join [LF] (xs @ ys) = join [LF] xs @ [LF] @ join [LF] ys"
proof (induction xs)
  case Nil
  then show ?case by simp
next
  case (Cons x xs)
  show ?case
  proof (cases xs)
    case Nil
    then show ?thesis using Cons.prems by (cases ys) auto
  next
    case (Cons z zs)
    then show ?thesis using Cons.IH Cons.prems by simp
  qed
qed

lemma generateDts_lines: "generateDts parsed = join [LF] (dts_lines parsed)"
  by (simp add: generateDts_def dts_lines_def Let_def fold_push fold_push_indent
      indent_first_def dts_header_def DQ_def)

lemma dts_text:
  "join [LF] (dts_lines parsed) =
     terminated (imports_of parsed) @ (if imports_of parsed = [] then [] else [LF]) @
     terminated (preamble parsed) @ (if preamble parsed = [] then [] else [LF]) @
     dts_header @ [LF] @ ''    '' @ propsBody parsed @ [LF] @
     ''}>;'' @ [LF] @ ''export default template;'' @ [LF]"
proof -
  let ?tail = "[''}>;'', ''export default template;'', []]"
  let ?props = "indent_first (split_lines (propsBody parsed))"
  have pn: "?props \<noteq> []" using split_lines_not_Nil[of "propsBody parsed"]
    by (auto simp: indent_first_def split: list.splits)
  have t: "join [LF] ?tail = ''}>;'' @ [LF] @ ''export default template;'' @ [LF]" by simp
  have a: "join [LF] (?props @ ?tail) = ''    '' @ propsBody parsed @ [LF] @ join [LF] ?tail"
    using join_append2[OF pn, of ?tail] join_indent_first by simp
  have b: "join [LF] ([dts_header] @ ?props @ ?tail) = dts_header @ [LF] @ join [LF] (?props @ ?tail)"
    using join_append[of "?props @ ?tail" "[dts_header]"] by (simp add: terminated_def)
  let ?rest = "[dts_header] @ ?props @ ?tail"
  have rn: "?rest \<noteq> []" by simp
  let ?pre = "preamble parsed @ (if preamble parsed = [] then [] else [[]])"
  have c: "join [LF] (?pre @ ?rest) =
      terminated (preamble parsed) @ (if preamble parsed = [] then [] else [LF]) @ join [LF] ?rest"
    using join_append[OF rn, of ?pre] by (simp add: terminated_def)
  let ?imp = "imports_of parsed @ (if imports_of parsed = [] then [] else [[]])"
  have rn2: "?pre @ ?rest \<noteq> []" by simp
  have d: "join [LF] (?imp @ ?pre @ ?rest) =
      terminated (imports_of parsed) @ (if imports_of parsed = [] then [] else [LF]) @
      join [LF] (?pre @ ?rest)"
    using join_append[OF rn2, of ?imp] by (simp add: terminated_def)
  have "dts_lines parsed = ?imp @ ?pre @ ?rest" by (simp add: dts_lines_def)
  then show ?thesis using a b c d t by simp
qed

lemma compileToString_text:
  "compileToString parsed =
     ''export default {'' @ [LF] @ ''  render(props) {'' @ [LF] @
     (if propKeys parsed = [] then [] else prologue_line (propKeys parsed)) @
     ''    return `'' @ body parsed @ ''`;'' @ [LF] @ ''  },'' @ [LF] @
     ''  raw: `'' @ escapedRaw (body parsed) @ ''`'' @ [LF] @ ''};'' @ [LF]"
  by (simp add: compileToString_def prologue_line_def Let_def)

text \<open>
  The key scan reads at most one key from a line: a props body written on one line has at
  most one key, however many members it declares.
\<close>

lemma split_lines_single: "LF \<notin> set s \<Longrightarrow> split_lines s = [s]"
  by (induction s) auto

lemma single_line_at_most_one_key: "LF \<notin> set pb \<Longrightarrow> length (extractPropKeys pb) \<le> 1"
  by (simp add: extractPropKeys_def split_lines_single Let_def split: option.splits)

section \<open>Properties of the escaping\<close>

lemma replace_all_char:
  "replace_all [x] rep s = concat (map (\<lambda>c. if c = x then rep else [c]) s)"
  by (induction s) auto

lemma special_chars:
  "BACKSLASH \<noteq> BACKTICK" "BACKSLASH \<noteq> CHR ''$''" "BACKSLASH \<noteq> CHR ''{''"
  "BACKTICK \<noteq> CHR ''$''" "BACKTICK \<noteq> CHR ''{''" "CR \<noteq> BACKSLASH" "CR \<noteq> BACKTICK"
  "CR \<noteq> CHR ''$''" "CR \<noteq> LF" "BACKTICK \<noteq> BACKSLASH" "CHR ''$'' \<noteq> BACKSLASH"
  "CHR ''$'' \<noteq> BACKTICK" "CHR ''{'' \<noteq> BACKSLASH" "CHR ''{'' \<noteq> BACKTICK"
  by (simp_all add: BACKSLASH_def BACKTICK_def CR_def LF_def)

lemma pass12_Cons:
  "pass12 (c # cs) =
     (if c = BACKSLASH then [BACKSLASH, BACKSLASH]
      else if c = BACKTICK then [BACKSLASH, BACKTICK] else [c]) @ pass12 cs"
  by (simp add: pass12_def replace_all_char special_chars)

lemma pass12_Nil: "pass12 [] = []"
  by (simp add: pass12_def)

lemma pass3_skip:
  "c \<noteq> CHR ''$'' \<Longrightarrow> replace_all ''${'' rep (c # s) = c # replace_all ''${'' rep s"
  by simp

lemma pass3_dollar_other:
  "(s = [] \<or> hd s \<noteq> CHR ''{'') \<Longrightarrow>
     replace_all ''${'' rep (CHR ''$'' # s) = CHR ''$'' # replace_all ''${'' rep s"
  by (cases s) auto

lemma pass3_dollar_brace:
  "replace_all ''${'' rep (CHR ''$'' # CHR ''{'' # s) = rep @ replace_all ''${'' rep s"
  by simp

lemma pass12_head: "pass12 (d # cs) \<noteq> [] \<and> (hd (pass12 (d # cs)) = CHR ''{'') = (d = CHR ''{'')"
  by (simp add: pass12_Cons special_chars)

lemma escapedRaw_single_pass: "escapedRaw s = escape_pass s"
proof -
  have "replace_all ''${'' (BACKSLASH # ''${'') (pass12 s) = escape_pass s"
  proof (induction s rule: escape_pass.induct)
    case 1
    then show ?case by (simp add: pass12_Nil)
  next
    case (2 c)
    then show ?case by (simp add: pass12_Cons pass12_Nil special_chars)
  next
    case (3 c d cs)
    show ?case
    proof (cases "c = BACKSLASH \<or> c = BACKTICK")
      case True
      then show ?thesis using 3 by (auto simp: pass12_Cons[of c] special_chars)
    next
      case False
      note nf = False
      show ?thesis
      proof (cases "c = CHR ''$''")
        case True
        show ?thesis
        proof (cases "d = CHR ''{''")
          case True
          have "pass12 (c # d # cs) = CHR ''$'' # CHR ''{'' # pass12 cs"
            using True \<open>c = CHR ''$''\<close> by (simp add: pass12_Cons special_chars)
          then show ?thesis using 3 True \<open>c = CHR ''$''\<close> nf by (simp add: special_chars)
        next
          case False
          have "pass12 (c # d # cs) = c # pass12 (d # cs)"
            using nf by (simp add: pass12_Cons[of c])
          then have a: "pass12 (c # d # cs) = CHR ''$'' # pass12 (d # cs)"
            using \<open>c = CHR ''$''\<close> by simp
          have "hd (pass12 (d # cs)) \<noteq> CHR ''{''" using pass12_head[of d cs] False by simp
          then have "replace_all ''${'' (BACKSLASH # ''${'') (CHR ''$'' # pass12 (d # cs)) =
              CHR ''$'' # replace_all ''${'' (BACKSLASH # ''${'') (pass12 (d # cs))"
            by (intro pass3_dollar_other) simp
          then show ?thesis using 3 False \<open>c = CHR ''$''\<close> nf a by (simp add: special_chars)
        qed
      next
        case False
        have a: "pass12 (c # d # cs) = c # pass12 (d # cs)"
          using nf by (simp add: pass12_Cons[of c])
        show ?thesis using 3 False nf unfolding a by (simp add: pass3_skip)
      qed
    qed
  qed
  then show ?thesis by (simp add: escapedRaw_def pass12_def)
qed

lemma template_literal_end: "template_literal env InText (BACKTICK # rest) = Inr ([], rest)"
  by (cases rest) auto

lemma template_literal_plain:
  "c \<noteq> BACKTICK \<Longrightarrow> c \<noteq> BACKSLASH \<Longrightarrow> c \<noteq> CR \<Longrightarrow> s \<noteq> [] \<Longrightarrow>
   \<not> (c = CHR ''$'' \<and> hd s = CHR ''{'') \<Longrightarrow>
     template_literal env InText (c # s) = prepend [c] (template_literal env InText s)"
  by (cases s) auto

lemma template_literal_escape:
  "d = BACKSLASH \<or> d = BACKTICK \<or> d = CHR ''$'' \<Longrightarrow>
     template_literal env InText (BACKSLASH # d # s) = prepend [d] (template_literal env InText s)"
  by (auto simp: special_chars)

lemma escape_pass_head:
  "escape_pass (d # cs) \<noteq> [] \<and> (hd (escape_pass (d # cs)) = CHR ''{'') = (d = CHR ''{'')"
  by (cases cs) (auto simp: special_chars)

lemma raw_literal_decodes_pass:
  "CR \<notin> set b \<Longrightarrow>
     template_literal env InText (escape_pass b @ BACKTICK # rest) = Inr (b, rest)"
proof (induction b rule: escape_pass.induct)
  case 1
  then show ?case by (simp add: template_literal_end)
next
  case (2 c)
  show ?case
  proof (cases "c = BACKSLASH \<or> c = BACKTICK")
    case True
    then show ?thesis
      using template_literal_escape[of c env "BACKTICK # rest"]
      by (auto simp: template_literal_end special_chars)
  next
    case False
    then have "template_literal env InText (c # BACKTICK # rest) =
        prepend [c] (template_literal env InText (BACKTICK # rest))"
      using 2 by (intro template_literal_plain) (auto simp: special_chars)
    then show ?thesis using False by (simp add: template_literal_end)
  qed
next
  case (3 c d cs)
  let ?tail = "escape_pass (d # cs) @ BACKTICK # rest"
  have cr: "CR \<notin> set (d # cs)" "CR \<notin> set cs" "c \<noteq> CR" using "3.prems" by auto
  show ?case
  proof (cases "c = BACKSLASH \<or> c = BACKTICK")
    case True
    have ih: "template_literal env InText ?tail = Inr (d # cs, rest)"
      using True "3.IH"(1,2) cr by blast
    have "template_literal env InText (BACKSLASH # c # ?tail) =
        prepend [c] (template_literal env InText ?tail)"
      using True by (intro template_literal_escape) blast
    then show ?thesis using True ih by (auto simp: special_chars)
  next
    case False
    note nf = False
    show ?thesis
    proof (cases "c = CHR ''$'' \<and> d = CHR ''{''")
      case True
      have ih: "template_literal env InText (escape_pass cs @ BACKTICK # rest) = Inr (cs, rest)"
        using True nf "3.IH"(3) cr by blast
      have "template_literal env InText
          (BACKSLASH # CHR ''$'' # (CHR ''{'' # escape_pass cs @ BACKTICK # rest)) =
        prepend ''$'' (template_literal env InText (CHR ''{'' # escape_pass cs @ BACKTICK # rest))"
        by (intro template_literal_escape) simp
      moreover have "template_literal env InText (CHR ''{'' # escape_pass cs @ BACKTICK # rest) =
        prepend ''{'' (template_literal env InText (escape_pass cs @ BACKTICK # rest))"
        by (intro template_literal_plain) (simp_all add: special_chars CR_def)
      ultimately show ?thesis using True nf ih by (simp add: special_chars)
    next
      case False
      have ih: "template_literal env InText ?tail = Inr (d # cs, rest)"
        using False nf "3.IH"(4) cr by blast
      have hdt: "?tail \<noteq> [] \<and> (hd ?tail = CHR ''{'') = (d = CHR ''{'')"
        using escape_pass_head[of d cs] by (cases "escape_pass (d # cs)") auto
      have "template_literal env InText (c # ?tail) =
          prepend [c] (template_literal env InText ?tail)"
        using nf False cr hdt by (intro template_literal_plain) auto
      then show ?thesis using nf False ih by auto
    qed
  qed
qed

lemma raw_literal_decodes:
  "CR \<notin> set b \<Longrightarrow> template_literal env InText (escapedRaw b @ BACKTICK # rest) = Inr (b, rest)"
  by (simp add: escapedRaw_single_pass raw_literal_decodes_pass)

text \<open>What \<^const>\<open>compile\<close> returns, in terms of what the host's constructor does.\<close>

lemma compile_outcome:
  "compile new_Function parsed =
     map_sum id (\<lambda>renderFn. \<lparr> render = renderFn, raw = body parsed \<rparr>)
       (new_Function (fnBody parsed))"
  by (cases "new_Function (fnBody parsed)") (simp_all add: compile_def)

section \<open>Properties of the preamble extraction\<close>

lemma word_not_space: "is_word c \<Longrightarrow> \<not> is_space c"
  using space_not_word by blast

lemma preamble_match_sound:
  assumes "preamble_match t = Some n"
  shows "declaration_head t n"
proof -
  define k :: nat where "k = (if prefix ''interface'' t then 9 else 4)"
  define kw where "kw = (if prefix ''interface'' t then ''interface'' else ''type'')"
  have pk: "prefix kw t" and lk: "length kw = k"
    using assms unfolding preamble_match_def kw_def k_def by (auto split: if_splits)
  let ?r = "drop k t"
  let ?ws = "takeWhile is_space ?r"
  let ?r1 = "dropWhile is_space ?r"
  let ?ident = "takeWhile is_word ?r1"
  let ?rest = "dropWhile is_word ?r1"
  have m: "?ws \<noteq> []" "?ident \<noteq> []" "?ident \<noteq> ''Props''" "n = k + length ?ws + length ?ident"
    using assms unfolding preamble_match_def k_def Let_def by (auto split: if_splits)
  have t: "t = kw @ ?r" using pk lk by (auto simp: prefix_def)
  have "t = kw @ ?ws @ ?ident @ ?rest" using t by simp
  moreover have "kw = ''interface'' \<or> kw = ''type''" by (simp add: kw_def)
  moreover have "list_all is_space ?ws" unfolding list_all_iff by (auto dest: set_takeWhileD)
  moreover have "list_all is_word ?ident" unfolding list_all_iff by (auto dest: set_takeWhileD)
  moreover have "?rest = [] \<or> \<not> is_word (hd ?rest)" using hd_dropWhile[of is_word ?r1] by blast
  ultimately show ?thesis unfolding declaration_head_def using m lk by blast
qed

lemma preamble_match_complete:
  assumes "declaration_head t n"
  shows "preamble_match t = Some n"
proof -
  from assms obtain kw ws ident rest where
    t: "t = kw @ ws @ ident @ rest" and kw: "kw = ''interface'' \<or> kw = ''type''" and
    ws: "ws \<noteq> []" "list_all is_space ws" and
    ident: "ident \<noteq> []" "list_all is_word ident" "rest = [] \<or> \<not> is_word (hd rest)"
      "ident \<noteq> ''Props''" and
    n: "n = length kw + length ws + length ident"
    unfolding declaration_head_def by blast
  have sel: "(if prefix ''interface'' t then Some (9::nat)
              else if prefix ''type'' t then Some 4 else None) = Some (length kw)"
    using kw unfolding t by auto
  have r: "drop (length kw) t = ws @ ident @ rest" unfolding t by simp
  have "is_word (hd ident)" using ident(1,2) by (cases ident) auto
  then have hi: "ident @ rest = [] \<or> \<not> is_space (hd (ident @ rest))"
    using ident(1) word_not_space by simp
  have a: "takeWhile is_space (ws @ ident @ rest) = ws" using takeWhile_run[OF ws(2) hi] .
  have b: "dropWhile is_space (ws @ ident @ rest) = ident @ rest" using dropWhile_run[OF ws(2) hi] .
  have c: "takeWhile is_word (ident @ rest) = ident" using takeWhile_run[OF ident(2,3)] .
  show ?thesis unfolding preamble_match_def sel using ws(1) ident(1,4) n
    by (simp add: r a b c)
qed

lemma preamble_match_iff: "(preamble_match t = Some n) = declaration_head t n"
  using preamble_match_sound preamble_match_complete by blast

lemma preamble_match_Nil: "preamble_match [] = None"
  by (simp add: preamble_match_def)

lemma matchAll_from_set:
  "x \<in> set (matchAll_from s p0) \<Longrightarrow>
     p0 \<le> x \<and> x < length s \<and> (\<exists>n. preamble_match (drop x s) = Some n)"
proof (induction s p0 rule: matchAll_from.induct)
  case (1 s p)
  show ?case
  proof (cases "length s \<le> p")
    case True
    then show ?thesis using "1.prems" by (simp add: matchAll_from.simps[of s p])
  next
    case False
    note nl = False
    show ?thesis
    proof (cases "preamble_match (drop p s)")
      case None
      then have "x \<in> set (matchAll_from s (Suc p))"
        using "1.prems" nl by (simp add: matchAll_from.simps[of s p])
      then show ?thesis using "1.IH"(1)[OF nl None] by auto
    next
      case (Some n)
      then have "x = p \<or> x \<in> set (matchAll_from s (p + n))"
        using "1.prems" nl by (simp add: matchAll_from.simps[of s p])
      then show ?thesis
      proof
        assume "x = p"
        then show ?thesis using nl Some by auto
      next
        assume "x \<in> set (matchAll_from s (p + n))"
        then show ?thesis using "1.IH"(2)[OF nl Some] by auto
      qed
    qed
  qed
qed

lemma matchAll_from_sorted: "sorted_wrt (<) (matchAll_from s p0)"
proof (induction s p0 rule: matchAll_from.induct)
  case (1 s p)
  show ?case
  proof (cases "length s \<le> p")
    case True
    then show ?thesis by (simp add: matchAll_from.simps[of s p])
  next
    case False
    note nl = False
    show ?thesis
    proof (cases "preamble_match (drop p s)")
      case None
      then show ?thesis using "1.IH"(1)[OF nl None] nl by (simp add: matchAll_from.simps[of s p])
    next
      case (Some n)
      have "0 < n" using Some preamble_match_pos by blast
      then have "\<forall>x \<in> set (matchAll_from s (p + n)). p < x"
        using matchAll_from_set[of _ s "p + n"] by fastforce
      then show ?thesis using "1.IH"(2)[OF nl Some] nl Some
        by (simp add: matchAll_from.simps[of s p])
    qed
  qed
qed

lemma matchAll_from_complete:
  "p0 \<le> p \<Longrightarrow> preamble_match (drop p s) = Some n \<Longrightarrow>
     p \<in> set (matchAll_from s p0) \<or>
     (\<exists>q m. q \<in> set (matchAll_from s p0) \<and> preamble_match (drop q s) = Some m \<and>
            q < p \<and> p < q + m)"
proof (induction s p0 rule: matchAll_from.induct)
  case (1 s p0)
  have pl: "p < length s"
  proof (rule ccontr)
    assume "\<not> p < length s"
    then have "drop p s = []" by simp
    then show False using "1.prems"(2) by (simp add: preamble_match_Nil)
  qed
  then have nl: "\<not> length s \<le> p0" using "1.prems"(1) by simp
  show ?case
  proof (cases "preamble_match (drop p0 s)")
    case None
    then have "p \<noteq> p0" using "1.prems"(2) by auto
    then have "Suc p0 \<le> p" using "1.prems"(1) by simp
    from "1.IH"(1)[OF nl None this "1.prems"(2)] show ?thesis
      using nl None by (simp add: matchAll_from.simps[of s p0])
  next
    case (Some n0)
    have ma: "matchAll_from s p0 = p0 # matchAll_from s (p0 + n0)"
      using nl Some by (simp add: matchAll_from.simps[of s p0])
    show ?thesis
    proof (cases "p = p0")
      case True
      then show ?thesis using ma by simp
    next
      case False
      then have lt: "p0 < p" using "1.prems"(1) by simp
      show ?thesis
      proof (cases "p < p0 + n0")
        case True
        then show ?thesis using ma lt Some by auto
      next
        case False
        then have "p0 + n0 \<le> p" by simp
        from "1.IH"(2)[OF nl Some this "1.prems"(2)] show ?thesis using ma by auto
      qed
    qed
  qed
qed

text \<open>Behind a match the search goes on where the match ends, so two matches never overlap.\<close>

lemma matchAll_from_apart:
  "q \<in> set (matchAll_from s p0) \<Longrightarrow> p \<in> set (matchAll_from s p0) \<Longrightarrow>
     preamble_match (drop q s) = Some m \<Longrightarrow> q < p \<Longrightarrow> q + m \<le> p"
proof (induction s p0 rule: matchAll_from.induct)
  case (1 s p0)
  show ?case
  proof (cases "length s \<le> p0")
    case True
    then show ?thesis using "1.prems"(1) by (simp add: matchAll_from.simps[of s p0])
  next
    case False
    note nl = False
    show ?thesis
    proof (cases "preamble_match (drop p0 s)")
      case None
      then have ma: "matchAll_from s p0 = matchAll_from s (Suc p0)"
        using nl by (simp add: matchAll_from.simps[of s p0])
      show ?thesis
        using "1.IH"(1)[OF nl None] "1.prems" unfolding ma by blast
    next
      case (Some n0)
      have ma: "matchAll_from s p0 = p0 # matchAll_from s (p0 + n0)"
        using nl Some by (simp add: matchAll_from.simps[of s p0])
      have tl: "x \<in> set (matchAll_from s (p0 + n0)) \<Longrightarrow> p0 + n0 \<le> x" for x
        using matchAll_from_set[of x s "p0 + n0"] by simp
      have pos: "0 < n0" using Some preamble_match_pos by blast
      show ?thesis
      proof (cases "q = p0")
        case True
        then have "m = n0" using Some "1.prems"(3) by simp
        moreover have "p \<in> set (matchAll_from s (p0 + n0))"
          using "1.prems"(2,4) True unfolding ma by simp
        ultimately show ?thesis using tl[of p] True by simp
      next
        case False
        then have qt: "q \<in> set (matchAll_from s (p0 + n0))"
          using "1.prems"(1) unfolding ma by simp
        then have "p0 < q" using tl[of q] pos by simp
        then have "p \<noteq> p0" using "1.prems"(4) by simp
        then have pt: "p \<in> set (matchAll_from s (p0 + n0))"
          using "1.prems"(2) unfolding ma by simp
        show ?thesis using "1.IH"(2)[OF nl Some qt pt "1.prems"(3,4)] .
      qed
    qed
  qed
qed

text \<open>The matches are the one list that \<^const>\<open>resumes_behind\<close> describes.\<close>

lemma matchAll_from_resumes: "resumes_behind fm (matchAll_from fm 0)"
proof -
  have iff: "(p \<in> set (matchAll_from fm 0)) =
      ((\<exists>n. declaration_head (drop p fm) n) \<and>
       \<not> (\<exists>q m. q \<in> set (matchAll_from fm 0) \<and> declaration_head (drop q fm) m \<and>
                q < p \<and> p < q + m))" for p
  proof
    assume pm: "p \<in> set (matchAll_from fm 0)"
    have h: "\<exists>n. declaration_head (drop p fm) n"
      using matchAll_from_set[OF pm] preamble_match_iff by blast
    have "\<not> (\<exists>q m. q \<in> set (matchAll_from fm 0) \<and> declaration_head (drop q fm) m \<and>
                q < p \<and> p < q + m)"
    proof
      assume "\<exists>q m. q \<in> set (matchAll_from fm 0) \<and> declaration_head (drop q fm) m \<and>
                q < p \<and> p < q + m"
      then obtain q m where q: "q \<in> set (matchAll_from fm 0)"
        and hd: "declaration_head (drop q fm) m" and lt: "q < p" and ins: "p < q + m"
        by blast
      have "preamble_match (drop q fm) = Some m" using hd by (simp only: preamble_match_iff)
      from matchAll_from_apart[OF q pm this lt] show False using ins by simp
    qed
    with h show "(\<exists>n. declaration_head (drop p fm) n) \<and>
       \<not> (\<exists>q m. q \<in> set (matchAll_from fm 0) \<and> declaration_head (drop q fm) m \<and>
                q < p \<and> p < q + m)" by (intro conjI)
  next
    assume r: "(\<exists>n. declaration_head (drop p fm) n) \<and>
       \<not> (\<exists>q m. q \<in> set (matchAll_from fm 0) \<and> declaration_head (drop q fm) m \<and>
                q < p \<and> p < q + m)"
    then obtain n where "declaration_head (drop p fm) n" by blast
    then have pm: "preamble_match (drop p fm) = Some n" by (simp only: preamble_match_iff)
    have "p \<in> set (matchAll_from fm 0) \<or>
     (\<exists>q m. q \<in> set (matchAll_from fm 0) \<and> preamble_match (drop q fm) = Some m \<and>
            q < p \<and> p < q + m)"
      using matchAll_from_complete[OF _ pm, of 0] by simp
    then show "p \<in> set (matchAll_from fm 0)"
      using r unfolding preamble_match_iff by blast
  qed
  show ?thesis unfolding resumes_behind_def
    using matchAll_from_sorted[of fm 0] iff by blast
qed

lemma resumes_behind_unique:
  assumes L: "resumes_behind fm L" and M: "resumes_behind fm M"
  shows "L = M"
proof -
  have l: "(p \<in> set L) =
         ((\<exists>n. declaration_head (drop p fm) n) \<and>
          \<not> (\<exists>q m. q \<in> set L \<and> declaration_head (drop q fm) m \<and> q < p \<and> p < q + m))" for p
    using L unfolding resumes_behind_def by blast
  have m: "(p \<in> set M) =
         ((\<exists>n. declaration_head (drop p fm) n) \<and>
          \<not> (\<exists>q m. q \<in> set M \<and> declaration_head (drop q fm) m \<and> q < p \<and> p < q + m))" for p
    using M unfolding resumes_behind_def by blast
  have same: "(p \<in> set L) = (p \<in> set M)" for p
  proof (induction p rule: less_induct)
    case (less p)
    have "(\<exists>q m. q \<in> set L \<and> declaration_head (drop q fm) m \<and> q < p \<and> p < q + m) =
          (\<exists>q m. q \<in> set M \<and> declaration_head (drop q fm) m \<and> q < p \<and> p < q + m)"
      using less.IH by blast
    then show ?case using l[of p] m[of p] by simp
  qed
  then have "set M = set L" by blast
  moreover have "sorted_wrt (<) L" using L unfolding resumes_behind_def by blast
  moreover have "sorted_wrt (<) M" using M unfolding resumes_behind_def by blast
  ultimately show ?thesis using strict_sorted_equal[of L M] by blast
qed

lemma index_from_char:
  "index_from [c] t i =
     (if c \<in> set t then Some (i + length (takeWhile (\<lambda>x. x \<noteq> c) t)) else None)"
  by (induction t arbitrary: i) auto

lemma split_at_char:
  "c \<in> set t \<Longrightarrow> t = takeWhile (\<lambda>x. x \<noteq> c) t @ c # drop (Suc (length (takeWhile (\<lambda>x. x \<noteq> c) t))) t"
proof (induction t)
  case Nil
  then show ?case by simp
next
  case (Cons a t)
  then show ?case by (cases "a = c") auto
qed

lemma brace_scan_result:
  "0 < d0 \<Longrightarrow>
     \<exists>k. brace_scan rest i0 d0 = (i0 + k, d0 + brace_balance (take k rest)) \<and>
         k \<le> length rest \<and>
         (\<forall>m<k. 0 < d0 + brace_balance (take m rest)) \<and>
         (d0 + brace_balance (take k rest) = 0 \<or>
          (k = length rest \<and> 0 < d0 + brace_balance (take k rest)))"
proof (induction rest arbitrary: i0 d0)
  case Nil
  then show ?case by (simp add: brace_balance_def)
next
  case (Cons c cs)
  let ?d1 = "d0 + brace_delta c 0"
  have step: "brace_scan (c # cs) i0 d0 = brace_scan cs (Suc i0) ?d1"
    using Cons.prems by (simp add: brace_delta_def)
  have nonneg: "0 \<le> ?d1" using Cons.prems by (simp add: brace_delta_def)
  show ?case
  proof (cases "?d1 = 0")
    case True
    have "brace_scan (c # cs) i0 d0 = (i0 + 1, d0 + brace_balance (take 1 (c # cs)))"
      using step True by (simp add: brace_scan_zero brace_delta_balance brace_balance_Nil)
    moreover have "\<forall>m<(1::nat). 0 < d0 + brace_balance (take m (c # cs))"
      using Cons.prems by (simp add: brace_balance_Nil)
    moreover have "d0 + brace_balance (take 1 (c # cs)) = 0"
      using True by (simp add: brace_delta_balance brace_balance_Nil)
    ultimately show ?thesis by (intro exI[of _ 1]) simp
  next
    case False
    then have pos: "0 < ?d1" using nonneg by simp
    from Cons.IH[OF pos, of "Suc i0"] obtain k where
      k: "brace_scan cs (Suc i0) ?d1 = (Suc i0 + k, ?d1 + brace_balance (take k cs))"
        "k \<le> length cs" "\<forall>m<k. 0 < ?d1 + brace_balance (take m cs)"
        "?d1 + brace_balance (take k cs) = 0 \<or>
         (k = length cs \<and> 0 < ?d1 + brace_balance (take k cs))"
      by blast
    have e: "\<And>m. d0 + brace_balance (take (Suc m) (c # cs)) = ?d1 + brace_balance (take m cs)"
      by (simp add: brace_delta_balance)
    have "\<forall>m<Suc k. 0 < d0 + brace_balance (take m (c # cs))"
    proof (intro allI impI)
      fix m assume "m < Suc k"
      then show "0 < d0 + brace_balance (take m (c # cs))"
        using k(3) e Cons.prems by (cases m) (auto simp: brace_balance_Nil)
    qed
    then show ?thesis using step k e by (intro exI[of _ "Suc k"]) auto
  qed
qed

lemma no_brace_all: "CHR ''{'' \<notin> set pre \<Longrightarrow> list_all (\<lambda>c. c \<noteq> CHR ''{'') pre"
  by (induction pre) auto

lemma closes_before:
  "CHR ''{'' \<notin> set pre \<Longrightarrow> n \<le> length pre \<Longrightarrow> \<not> closes (take n (pre @ CHR ''{'' # rest))"
proof -
  assume a: "CHR ''{'' \<notin> set pre" and n: "n \<le> length pre"
  have e1: "take n (pre @ CHR ''{'' # rest) = take n pre" using n by simp
  have "CHR ''{'' \<notin> set (take n pre)" using a by (auto dest: in_set_takeD)
  then have "list_all (\<lambda>c. c \<noteq> CHR ''{'') (take n pre)" by (rule no_brace_all)
  then have e2: "dropWhile (\<lambda>c. c \<noteq> CHR ''{'') (take n pre) = []"
    using dropWhile_run[of "\<lambda>c. c \<noteq> CHR ''{''" "take n pre" "[]"] by simp
  show ?thesis unfolding closes_def e1 e2 by simp
qed

lemma closes_after:
  "CHR ''{'' \<notin> set pre \<Longrightarrow>
     closes (take (length pre + 1 + m) (pre @ CHR ''{'' # rest)) =
     (1 + brace_balance (take m rest) = 0)"
proof -
  assume a: "CHR ''{'' \<notin> set pre"
  have e1: "take (length pre + 1 + m) (pre @ CHR ''{'' # rest) = pre @ CHR ''{'' # take m rest"
    by simp
  have e2: "dropWhile (\<lambda>c. c \<noteq> CHR ''{'') (pre @ CHR ''{'' # take m rest) =
      CHR ''{'' # take m rest"
    using dropWhile_run[OF no_brace_all[OF a], of "CHR ''{'' # take m rest"] by simp
  show ?thesis unfolding closes_def e1 e2 by (auto simp: brace_balance_def)
qed

lemma find_first:
  "P n0 \<Longrightarrow> n0 \<le> L \<Longrightarrow> (\<forall>j<n0. \<not> P j) \<Longrightarrow> find P [0..<Suc L] = Some n0"
  unfolding find_Some_iff by (intro exI[of _ n0]) (auto simp: nth_upt simp del: upt_Suc)

lemma find_none: "(\<forall>j\<le>L. \<not> P j) \<Longrightarrow> find P [0..<Suc L] = None"
  unfolding find_None_iff by auto

lemma shortest_closing:
  assumes np: "CHR ''{'' \<notin> set pre"
    and k: "k \<le> length rest" "\<forall>m<k. 0 < 1 + brace_balance (take m rest)"
      "1 + brace_balance (take k rest) = 0 \<or>
       (k = length rest \<and> 0 < 1 + brace_balance (take k rest))"
    and t: "t = pre @ CHR ''{'' # rest"
  shows "(case find (\<lambda>n. closes (take n t)) [0..<Suc (length t)] of
            Some n \<Rightarrow> take n t | None \<Rightarrow> t) = take (length pre + 1 + k) t"
proof -
  have lt: "length t = length pre + 1 + length rest" unfolding t by simp
  have before: "\<not> closes (take j t)" if j: "j < length pre + 1 + k" for j
  proof (cases "j \<le> length pre")
    case True
    then show ?thesis unfolding t using closes_before[OF np] by blast
  next
    case False
    define m where "m = j - (length pre + 1)"
    have m: "j = length pre + 1 + m" "m < k" using False j by (auto simp: m_def)
    have "closes (take j t) = (1 + brace_balance (take m rest) = 0)"
      unfolding t m(1) using closes_after[OF np] by blast
    then show ?thesis using k(2) m(2) by auto
  qed
  have at: "closes (take (length pre + 1 + k) t) = (1 + brace_balance (take k rest) = 0)"
    unfolding t using closes_after[OF np] by blast
  show ?thesis
  proof (cases "1 + brace_balance (take k rest) = 0")
    case True
    have "find (\<lambda>n. closes (take n t)) [0..<Suc (length t)] = Some (length pre + 1 + k)"
    proof (rule find_first)
      show "closes (take (length pre + 1 + k) t)" using at True by simp
      show "length pre + 1 + k \<le> length t" using lt k(1) by simp
      show "\<forall>j<length pre + 1 + k. \<not> closes (take j t)" using before by blast
    qed
    then show ?thesis by simp
  next
    case False
    then have kl: "k = length rest" using k(3) by auto
    have "\<forall>j\<le>length t. \<not> closes (take j t)"
    proof (intro allI impI)
      fix j assume "j \<le> length t"
      then have "j < length pre + 1 + k \<or> j = length pre + 1 + k" using lt kl by auto
      then show "\<not> closes (take j t)" using before at False by blast
    qed
    then have "find (\<lambda>n. closes (take n t)) [0..<Suc (length t)] = None"
      by (rule find_none)
    then show ?thesis using lt kl by simp
  qed
qed

lemma capture_interface:
  assumes p: "p \<le> length fm" and pi: "prefix ''interface'' (drop p fm)"
  shows "preamble_capture fm p = interface_span (drop p fm)"
proof -
  define t where "t = drop p fm"
  define pre where "pre = takeWhile (\<lambda>x. x \<noteq> CHR ''{'') t"
  have io: "indexOf fm ''{'' p =
      (if CHR ''{'' \<in> set t then Some (p + length pre) else None)"
    using indexOf_le[OF p, of "''{''"] index_from_char[of "CHR ''{''" t p]
    by (simp add: t_def pre_def)
  show ?thesis
  proof (cases "CHR ''{'' \<in> set t")
    case False
    then show ?thesis using io pi
      by (simp add: preamble_capture_def interface_span_def t_def)
  next
    case True
    define rest where "rest = drop (Suc (length pre)) t"
    have t: "t = pre @ CHR ''{'' # rest"
      using split_at_char[OF True] by (simp add: pre_def rest_def)
    have np: "CHR ''{'' \<notin> set pre" by (auto simp: pre_def dest: set_takeWhileD)
    have dr: "drop (p + length pre + 1) fm = rest" by (simp add: rest_def t_def add.commute)
    from brace_scan_result[of 1 rest "p + length pre + 1"] obtain k where
      k: "brace_scan rest (p + length pre + 1) 1 =
            (p + length pre + 1 + k, 1 + brace_balance (take k rest))"
         "k \<le> length rest" "\<forall>m<k. 0 < 1 + brace_balance (take m rest)"
         "1 + brace_balance (take k rest) = 0 \<or>
          (k = length rest \<and> 0 < 1 + brace_balance (take k rest))"
      by auto
    have sl: "slice fm p (p + length pre + 1 + k) = take (length pre + 1 + k) t"
      by (simp add: slice_def t_def)
    have cap: "preamble_capture fm p = Some (trim (take (length pre + 1 + k) t))"
      using io True pi k(1) dr sl by (simp add: preamble_capture_def t_def[symmetric])
    have "interface_span t = Some (trim (take (length pre + 1 + k) t))"
      using shortest_closing[OF np k(2,3,4) t] True by (simp add: interface_span_def)
    then show ?thesis using cap by (simp add: t_def)
  qed
qed

lemma capture_alias:
  assumes p: "p \<le> length fm" and pi: "\<not> prefix ''interface'' (drop p fm)"
  shows "preamble_capture fm p = Some (alias_span (drop p fm))"
proof -
  define t where "t = drop p fm"
  define pre where "pre = takeWhile (\<lambda>x. x \<noteq> LF) t"
  have io: "indexOf fm [LF] p = (if LF \<in> set t then Some (p + length pre) else None)"
    using indexOf_le[OF p, of "[LF]"] index_from_char[of LF t p] by (simp add: t_def pre_def)
  have pit: "\<not> prefix ''interface'' t" using pi by (simp add: t_def)
  show ?thesis
  proof (cases "LF \<in> set t")
    case False
    then have e: "takeWhile (\<lambda>x. x \<noteq> LF) t = t" unfolding takeWhile_eq_all_conv by blast
    have "alias_span t = trim t" unfolding alias_span_def e by (rule refl)
    moreover have "preamble_capture fm p = Some (trim t)"
      using io pit False by (simp add: preamble_capture_def t_def[symmetric])
    ultimately show ?thesis by (simp add: t_def)
  next
    case True
    have "slice fm p (p + length pre) = take (length pre) t" by (simp add: slice_def t_def)
    also have "\<dots> = pre" using takeWhile_eq_take[of "\<lambda>x. x \<noteq> LF" t] by (simp add: pre_def)
    finally have "preamble_capture fm p = Some (trim pre)"
      using io pit True by (simp add: preamble_capture_def t_def[symmetric])
    then show ?thesis by (simp add: alias_span_def pre_def t_def)
  qed
qed

lemma capture_span: "p \<le> length fm \<Longrightarrow> preamble_capture fm p = declaration_span (drop p fm)"
  using capture_interface capture_alias by (simp add: declaration_span_def)

lemma map_filter_cong_set:
  "(\<And>x. x \<in> set xs \<Longrightarrow> f x = g x) \<Longrightarrow> List.map_filter f xs = List.map_filter g xs"
  by (induction xs) (auto simp: map_filter_simps split: option.splits)

lemma extractPreamble_spans:
  "extractPreamble fm =
     List.map_filter (\<lambda>p. declaration_span (drop p fm)) (matchAll_from fm 0)"
  unfolding extractPreamble_def
proof (rule map_filter_cong_set)
  fix x assume "x \<in> set (matchAll_from fm 0)"
  then have "x \<le> length fm" using matchAll_from_set[of x fm 0] by simp
  then show "preamble_capture fm x = declaration_span (drop x fm)" by (rule capture_span)
qed

section \<open>The claims about the parser's split and its failures\<close>

text \<open>
  Claim C1 at the source the claim writes, with the declaration
  \<^verbatim>\<open>interface Props { user: { firstName: string; age: number } count: number }\<close> on one line:
  \<^const>\<open>parse\<close> returns \<^verbatim>\<open>propKeys = ["user"]\<close>. The nested names are not keys, but the top-level
  name \<^verbatim>\<open>count\<close> is lost as well, since the key scan reads at most one key from a line
  (lemma \<open>single_line_at_most_one_key\<close>).
\<close>

theorem propKeys_user_count_one_line:
  "parse src_user_count_one_line =
     Inr \<lparr> imports_of = [], preamble = [],
           propsBody = ''user: { firstName: string; age: number } count: number'',
           body = ''${user.firstName}'',
           propKeys = [''user''] \<rparr>"
  by code_simp

text \<open>
  The same declaration with a line break after each brace and each member: both top-level
  names are keys.
\<close>

lemma propKeys_user_count_lines:
  "parse src_user_count_lines =
     Inr \<lparr> imports_of = [], preamble = [],
           propsBody = join [LF] [''user: {'', ''        firstName: string;'',
             ''        age: number'', ''    }'', ''    count: number''],
           body = ''${user.firstName}'',
           propKeys = [''user'', ''count''] \<rparr>"
  by code_simp

text \<open>
  Claim C2. \<^const>\<open>parse\<close> fails exactly in the cases of \<^const>\<open>expected_failure\<close>, with the error
  of that case, and returns a template for every other source. Occurrences of the delimiter
  are counted without overlap, as \<^const>\<open>delimiter_occurrences\<close> does; in particular a source in
  which \<^verbatim>\<open>---\<close> starts nowhere fails for the opening delimiter, and one in which it starts at
  exactly one index fails for the closing delimiter. The five errors carry five different
  messages, which name what is missing.
\<close>

theorem parse_fails_exactly:
  "(parse s = Inl e) = (expected_failure s = Some e) \<and>
   (\<exists>p. parse s = Inr p) = (expected_failure s = None) \<and>
   (\<not> sublist ''---'' s \<longrightarrow> parse s = Inl NoOpeningDelimiter) \<and>
   ((\<exists>!k. prefix ''---'' (drop k s)) \<longrightarrow> parse s = Inl NoClosingDelimiter) \<and>
   distinct (map error_message
     [NoOpeningDelimiter, NoClosingDelimiter, MissingProps, MissingOpenBrace, UnmatchedBrace]) \<and>
   sublist ''no opening'' (error_message NoOpeningDelimiter) \<and>
   sublist ''no closing'' (error_message NoClosingDelimiter) \<and>
   sublist ''Missing `interface Props'' (error_message MissingProps)"
proof -
  have a: "(parse s = Inl e) = (expected_failure s = Some e)" for e
    using parse_outcome[of s, symmetric] by (cases "parse s") auto
  have b: "(\<exists>p. parse s = Inr p) = (expected_failure s = None)"
    using parse_outcome[of s, symmetric] by (cases "parse s") auto
  have c: "\<not> sublist ''---'' s \<longrightarrow> parse s = Inl NoOpeningDelimiter"
    using no_delimiter_occurrences[of s] a[of NoOpeningDelimiter]
    by (auto simp: expected_failure_def)
  have d: "(\<exists>!k. prefix ''---'' (drop k s)) \<longrightarrow> parse s = Inl NoClosingDelimiter"
  proof
    assume "\<exists>!k. prefix ''---'' (drop k s)"
    then obtain i where "delimiter_occurrences s = [i]" using single_position[of s] by blast
    then have "expected_failure s = Some NoClosingDelimiter" by (simp add: expected_failure_def)
    then show "parse s = Inl NoClosingDelimiter" using a[of NoClosingDelimiter] by blast
  qed
  show ?thesis using a b c d error_messages_distinct error_messages_identify by blast
qed

theorem parse_fails_exactly_witness:
  "\<not> sublist ''---'' src_no_delimiter \<and>
   parse src_no_delimiter = Inl NoOpeningDelimiter \<and>
   (\<exists>!k. prefix ''---'' (drop k src_unterminated)) \<and>
   parse src_unterminated = Inl NoClosingDelimiter \<and>
   parse src_no_props = Inl MissingProps \<and>
   parse src_no_brace = Inl MissingOpenBrace \<and>
   parse src_unbalanced = Inl UnmatchedBrace \<and>
   (\<exists>p. parse src_empty_body = Inr p)"
proof -
  have n: "\<not> sublist ''---'' src_no_delimiter" by code_simp
  then have a: "parse src_no_delimiter = Inl NoOpeningDelimiter"
    using parse_fails_exactly[of src_no_delimiter NoOpeningDelimiter] by blast
  have first: "prefix ''---'' (drop 0 src_unterminated)" by code_simp
  have later: "\<not> sublist ''---'' (tl src_unterminated)" by code_simp
  have u: "\<exists>!k. prefix ''---'' (drop k src_unterminated)"
  proof (rule ex1I[of _ 0])
    show "prefix ''---'' (drop 0 src_unterminated)" by (rule first)
  next
    fix k assume k: "prefix ''---'' (drop k src_unterminated)"
    show "k = 0"
    proof (rule ccontr)
      assume "k \<noteq> 0"
      then have "drop k src_unterminated = drop (k - 1) (tl src_unterminated)"
        by (cases k) (simp_all add: drop_Suc)
      then have "sublist ''---'' (tl src_unterminated)"
        using k prefix_drop_sublist by metis
      then show False using later by blast
    qed
  qed
  then have b: "parse src_unterminated = Inl NoClosingDelimiter"
    using parse_fails_exactly[of src_unterminated NoClosingDelimiter] by blast
  have "expected_failure src_no_props = Some MissingProps" by code_simp
  then have c: "parse src_no_props = Inl MissingProps"
    using parse_fails_exactly[of src_no_props MissingProps] by blast
  have "expected_failure src_no_brace = Some MissingOpenBrace" by code_simp
  then have d: "parse src_no_brace = Inl MissingOpenBrace"
    using parse_fails_exactly[of src_no_brace MissingOpenBrace] by blast
  have "expected_failure src_unbalanced = Some UnmatchedBrace" by code_simp
  then have e: "parse src_unbalanced = Inl UnmatchedBrace"
    using parse_fails_exactly[of src_unbalanced UnmatchedBrace] by blast
  have "expected_failure src_empty_body = None" by code_simp
  then have f: "\<exists>p. parse src_empty_body = Inr p"
    using parse_fails_exactly[of src_empty_body NoOpeningDelimiter] by blast
  show ?thesis using n a u b c d e f by (intro conjI)
qed

text \<open>
  Claim C3. When a source holds at least two occurrences of \<^verbatim>\<open>---\<close> (counted without overlap),
  the first at \<open>i\<close> and the second at \<open>j\<close>, then \<open>i\<close> is the first index where \<^verbatim>\<open>---\<close>
  starts and \<open>j\<close> the first one from \<open>i + 3\<close> on; the frontmatter is the trimmed text strictly
  between the two and the body is the trimmed text after the second; the body of every parse
  result is that text, and it is empty when only white space follows the second occurrence.
\<close>

theorem splitFrontmatter_first_two:
  "delimiter_occurrences s = i # j # others \<Longrightarrow>
     prefix ''---'' (drop i s) \<and> (\<forall>k<i. \<not> prefix ''---'' (drop k s)) \<and>
     i + 3 \<le> j \<and> prefix ''---'' (drop j s) \<and>
     (\<forall>k. i + 3 \<le> k \<and> k < j \<longrightarrow> \<not> prefix ''---'' (drop k s)) \<and>
     splitFrontmatter s = Inr (trim (slice s (i + 3) j), trim (drop (j + 3) s)) \<and>
     (\<forall>p. parse s = Inr p \<longrightarrow> body p = trim (drop (j + 3) s)) \<and>
     (list_all is_space (drop (j + 3) s) \<longrightarrow> (\<forall>p. parse s = Inr p \<longrightarrow> body p = []))"
proof -
  assume o: "delimiter_occurrences s = i # j # others"
  then have sf: "splitFrontmatter s = Inr (trim (slice s (i + 3) j), trim (drop (j + 3) s))"
    using splitFrontmatter_cases[of s] by simp
  have b: "\<forall>p. parse s = Inr p \<longrightarrow> body p = trim (drop (j + 3) s)"
    using sf by (auto simp: parse_def Let_def split: sum.splits)
  have c: "list_all is_space (drop (j + 3) s) \<longrightarrow> (\<forall>p. parse s = Inr p \<longrightarrow> body p = [])"
    using b trim_all_space by auto
  show ?thesis using occurrences_positions[OF o] sf b c by blast
qed

theorem splitFrontmatter_first_two_witness:
  "delimiter_occurrences src_empty_body = [0, 42] \<and>
   list_all is_space (drop (42 + 3) src_empty_body) \<and>
   splitFrontmatter src_empty_body =
     Inr (join [LF] [''interface Props {'', ''    name: string;'', ''}''], []) \<and>
   map_sum id body (parse src_empty_body) = Inr []"
proof -
  have h: "delimiter_occurrences src_empty_body = [0, 42]" by code_simp
  have w: "list_all is_space (drop (42 + 3) src_empty_body)" by code_simp
  have f: "trim (slice src_empty_body (0 + 3) 42) =
      join [LF] [''interface Props {'', ''    name: string;'', ''}'']" by code_simp
  note th = splitFrontmatter_first_two[OF h]
  have sp: "splitFrontmatter src_empty_body =
      Inr (trim (slice src_empty_body (0 + 3) 42), trim (drop (42 + 3) src_empty_body))"
    using th by blast
  have bd: "\<forall>p. parse src_empty_body = Inr p \<longrightarrow> body p = []" using th w by blast
  have "expected_failure src_empty_body = None" by code_simp
  then obtain p where p: "parse src_empty_body = Inr p"
    using parse_outcome[of src_empty_body] by (cases "parse src_empty_body") auto
  then have "body p = []" using bd by blast
  then have m: "map_sum id body (parse src_empty_body) = Inr []" using p by simp
  have s: "splitFrontmatter src_empty_body =
     Inr (join [LF] [''interface Props {'', ''    name: string;'', ''}''], [])"
    using sp f trim_all_space[OF w] by simp
  show ?thesis using h w s m by (intro conjI)
qed

text \<open>
  Claim C10. The line \<^verbatim>\<open>import type User from "mod";\<close> is reported twice: whole in the imports,
  and from its keyword \<^verbatim>\<open>type\<close> on in the preamble, where the pattern of the preamble matched
  \<^verbatim>\<open>type User\<close> in the middle of the line and the capture ran to the end of the line. The
  pattern asks for no word boundary before the keyword: it also matches inside \<^verbatim>\<open>prototype Foo\<close>.
\<close>

theorem default_import_in_both_fields:
  "parse src_default_import =
     Inr \<lparr> imports_of = [default_import_line],
           preamble = [drop 7 default_import_line],
           propsBody = ''user: User'',
           body = ''${user.name}'',
           propKeys = [''user''] \<rparr> \<and>
   drop 7 default_import_line = ''type User from '' @ [DQ] @ ''mod'' @ [DQ] @ '';'' \<and>
   extractPreamble ''prototype Foo'' = [''type Foo'']"
  by code_simp

section \<open>The claims about the key scan and the generated texts\<close>

text \<open>
  Claim C4. The keys of a props body are those of the two-phase scan over its lines: line
  \<open>k\<close> contributes a key exactly when the depth at its start, summed over the braces of the
  lines before it from 0, is 0 and its trimmed text matches the pattern; the line's own braces
  count only for the lines after it; the keys stand in the order of the lines and a repeated
  name is kept. The recorded name is the identifier of the pattern, without the \<^verbatim>\<open>?\<close>.
\<close>

theorem extractPropKeys_two_phase:
  "extractPropKeys pb = line_keys (split_lines pb) \<and>
   (\<forall>t name. (match_key t = Some name) = key_pattern t name)"
  using extractPropKeys_line_keys match_key_iff by blast

theorem extractPropKeys_two_phase_witness:
  "line_keys (split_lines props_body_example) = [''a'', ''user'', ''a''] \<and>
   key_pattern ''a?: string;'' ''a'' \<and>
   map (depth_at_line (split_lines props_body_example)) [0, 1, 2, 3, 4] = [0, 0, 1, 1, 0]"
proof -
  have k: "extractPropKeys props_body_example = [''a'', ''user'', ''a'']" by code_simp
  have m: "match_key ''a?: string;'' = Some ''a''" by code_simp
  have d: "map (depth_at_line (split_lines props_body_example)) [0, 1, 2, 3, 4] = [0, 0, 1, 1, 0]"
    by code_simp
  note th = extractPropKeys_two_phase[of props_body_example]
  have a: "line_keys (split_lines props_body_example) = [''a'', ''user'', ''a'']"
    using th[THEN conjunct1] k by simp
  have b: "key_pattern ''a?: string;'' ''a''"
    using th[THEN conjunct2, rule_format, of "''a?: string;''" "''a''"] m by (rule iffD1)
  show ?thesis using a b d by (intro conjI)
qed

text \<open>
  Claim C6. The declaration document is, line by line: the imports, a blank line if there
  are imports; the preamble declarations, a blank line if there are any; the header; the
  lines of the props body, the first behind four spaces; \<^verbatim>\<open>}>;\<close>; \<^verbatim>\<open>export default template;\<close>;
  and an empty last line. As a text: every line but the last ends in a line feed, and the
  props body stands unchanged behind the four spaces.
\<close>

theorem generateDts_layout:
  "generateDts parsed = join [LF] (dts_lines parsed) \<and>
   generateDts parsed =
     terminated (imports_of parsed) @ (if imports_of parsed = [] then [] else [LF]) @
     terminated (preamble parsed) @ (if preamble parsed = [] then [] else [LF]) @
     dts_header @ [LF] @ ''    '' @ propsBody parsed @ [LF] @
     ''}>;'' @ [LF] @ ''export default template;'' @ [LF]"
  using generateDts_lines[of parsed] dts_text[of parsed] by simp

theorem generateDts_layout_witness:
  "generateDts parsed_example =
     join [LF]
       [''import type { Address } from '' @ [DQ] @ ''./types'' @ [DQ] @ '';'',
        [],
        ''type Id = string;'',
        [],
        dts_header,
        ''    name: string;'',
        ''    address: Address;'',
        ''}>;'',
        ''export default template;'',
        []]"
proof -
  have "dts_lines parsed_example =
       [''import type { Address } from '' @ [DQ] @ ''./types'' @ [DQ] @ '';'',
        [],
        ''type Id = string;'',
        [],
        dts_header,
        ''    name: string;'',
        ''    address: Address;'',
        ''}>;'',
        ''export default template;'',
        []]"
    by code_simp
  then show ?thesis using generateDts_layout[of parsed_example] by simp
qed

text \<open>
  Claim C8. The module text holds the destructuring prologue, the line
  \<^verbatim>\<open>const { k1, k2 } = props;\<close> between the line \<^verbatim>\<open>render(props) {\<close> and the \<^verbatim>\<open>return\<close> line, exactly
  when there are keys, and no line in its place when there are none; the text always ends in a
  line feed.
\<close>

theorem compileToString_prologue:
  "compileToString parsed =
     ''export default {'' @ [LF] @ ''  render(props) {'' @ [LF] @
     (if propKeys parsed = [] then [] else prologue_line (propKeys parsed)) @
     ''    return `'' @ body parsed @ ''`;'' @ [LF] @ ''  },'' @ [LF] @
     ''  raw: `'' @ escapedRaw (body parsed) @ ''`'' @ [LF] @ ''};'' @ [LF] \<and>
   compileToString parsed \<noteq> [] \<and> last (compileToString parsed) = LF"
  using compileToString_text[of parsed] by simp

theorem compileToString_prologue_witness:
  "compileToString parsed_example =
     join [LF]
       [''export default {'',
        ''  render(props) {'',
        ''    const { name, address } = props;'',
        ''    return `${name} lives at ${address}`;'',
        ''  },'',
        ''  raw: `'' @ [BACKSLASH] @ ''${name} lives at '' @ [BACKSLASH] @ ''${address}`'',
        ''};'',
        []] \<and>
   compileToString parsed_static =
     join [LF]
       [''export default {'',
        ''  render(props) {'',
        ''    return `Static only`;'',
        ''  },'',
        ''  raw: `Static only`'',
        ''};'',
        []]"
proof -
  have a: "prologue_line (propKeys parsed_example) = ''    const { name, address } = props;'' @ [LF]"
    by code_simp
  have b: "escapedRaw (body parsed_example) =
      [BACKSLASH] @ ''${name} lives at '' @ [BACKSLASH] @ ''${address}''"
    by code_simp
  have c: "escapedRaw (body parsed_static) = ''Static only''" by code_simp
  have d: "propKeys parsed_example \<noteq> []" "propKeys parsed_static = []"
    "body parsed_example = ''${name} lives at ${address}''" "body parsed_static = ''Static only''"
    by (simp_all add: parsed_example_def parsed_static_def)
  show ?thesis
    using compileToString_prologue[of parsed_example] compileToString_prologue[of parsed_static]
      a b c d by simp
qed

section \<open>The claims about rendering and escaping\<close>

text \<open>
  Claim C7 at the source the claim writes, with the declaration
  \<^verbatim>\<open>interface Props { greeting: string; name: string; }\<close> on one line. The key scan reads at most
  one key from a line, so the only key is \<^verbatim>\<open>greeting\<close>; the function body handed to the host is
  \<^verbatim>\<open>const { greeting } = props; return `${greeting}, ${name}!`;\<close>, whatever the host's
  constructor \<open>new_Function\<close> is, and the \<^verbatim>\<open>render\<close> field is the function the host makes of that
  body. The body never declares \<^verbatim>\<open>name\<close>, so the property \<^verbatim>\<open>name\<close> of the bag is not read.
\<close>

theorem greeting_one_line_loses_name:
  "map_sum id propKeys (parse src_greeting_one_line) = Inr [''greeting''] \<and>
   map_sum id fnBody (parse src_greeting_one_line) =
     Inr ''const { greeting } = props; return `${greeting}, ${name}!`;'' \<and>
   map_sum id (compile new_Function) (parse src_greeting_one_line) =
     Inr (map_sum id (\<lambda>renderFn. \<lparr> render = renderFn, raw = ''${greeting}, ${name}!'' \<rparr>)
            (new_Function ''const { greeting } = props; return `${greeting}, ${name}!`;''))"
proof -
  define parsed where
    "parsed = \<lparr> imports_of = [], preamble = [],
            propsBody = ''greeting: string; name: string;'',
            body = ''${greeting}, ${name}!'',
            propKeys = [''greeting''] \<rparr>"
  have p: "parse src_greeting_one_line = Inr parsed"
    unfolding parsed_def by code_simp
  have k: "propKeys parsed = [''greeting'']"
    unfolding parsed_def by simp
  have r: "body parsed = ''${greeting}, ${name}!''"
    unfolding parsed_def by simp
  have f: "fnBody parsed = ''const { greeting } = props; return `${greeting}, ${name}!`;''"
    unfolding parsed_def by code_simp
  have a: "map_sum id propKeys (parse src_greeting_one_line) = Inr [''greeting'']"
    unfolding p using k by simp
  have b: "map_sum id fnBody (parse src_greeting_one_line) =
      Inr ''const { greeting } = props; return `${greeting}, ${name}!`;''"
    unfolding p using f by simp
  have c: "map_sum id (compile new_Function) (parse src_greeting_one_line) =
      Inr (map_sum id (\<lambda>renderFn. \<lparr> render = renderFn, raw = ''${greeting}, ${name}!'' \<rparr>)
             (new_Function ''const { greeting } = props; return `${greeting}, ${name}!`;''))"
    unfolding p using compile_outcome[of new_Function parsed] unfolding f r by simp
  show ?thesis using a b c by (intro conjI)
qed

text \<open>
  With each member on a line of its own, as the repository's test of this template lays it
  out, both keys are found and the function body declares both names.
\<close>

lemma greeting_lines_declares_both:
  "map_sum id propKeys (parse src_greeting_lines) = Inr [''greeting'', ''name''] \<and>
   map_sum id fnBody (parse src_greeting_lines) =
     Inr ''const { greeting, name } = props; return `${greeting}, ${name}!`;''"
  by code_simp

text \<open>
  Claim C5 at a body with a carriage return. \<^verbatim>\<open>compileToString\<close> writes the carriage return
  into the raw literal as it is; read back as a template literal, the literal denotes the body
  with a line feed in place of the carriage return and line feed, while the template that
  \<^verbatim>\<open>compile\<close> returns, whenever the host makes the function, has the body itself as \<^verbatim>\<open>raw\<close>.
  (For a body without carriage returns the literal does denote the body: lemma
  \<open>raw_literal_decodes\<close>.)
\<close>

theorem raw_literal_loses_carriage_return:
  "compileToString crlf_template =
     join [LF] [''export default {'', ''  render(props) {'', ''    const { x } = props;'',
       ''    return `a'' @ [CR, LF] @ ''b`;'', ''  },'', ''  raw: `a'' @ [CR, LF] @ ''b`'', ''};'', []] \<and>
   template_literal Map.empty InText
       (escapedRaw (body crlf_template) @ ''`'' @ [LF] @ ''};'' @ [LF]) =
     Inr (''a'' @ [LF] @ ''b'', [LF] @ ''};'' @ [LF]) \<and>
   body crlf_template = ''a'' @ [CR, LF] @ ''b'' \<and>
   compile new_Function crlf_template =
     map_sum id (\<lambda>renderFn. \<lparr> render = renderFn, raw = ''a'' @ [CR, LF] @ ''b'' \<rparr>)
       (new_Function (''const { x } = props; return `a'' @ [CR, LF] @ ''b`;''))"
proof -
  have a: "compileToString crlf_template =
     join [LF] [''export default {'', ''  render(props) {'', ''    const { x } = props;'',
       ''    return `a'' @ [CR, LF] @ ''b`;'', ''  },'', ''  raw: `a'' @ [CR, LF] @ ''b`'', ''};'', []]"
    by code_simp
  have b: "template_literal Map.empty InText
       (escapedRaw (body crlf_template) @ ''`'' @ [LF] @ ''};'' @ [LF]) =
     Inr (''a'' @ [LF] @ ''b'', [LF] @ ''};'' @ [LF])"
    by code_simp
  have c: "body crlf_template = ''a'' @ [CR, LF] @ ''b''"
    by code_simp
  have f: "fnBody crlf_template = ''const { x } = props; return `a'' @ [CR, LF] @ ''b`;''"
    by code_simp
  have d: "compile new_Function crlf_template =
     map_sum id (\<lambda>renderFn. \<lparr> render = renderFn, raw = ''a'' @ [CR, LF] @ ''b'' \<rparr>)
       (new_Function (''const { x } = props; return `a'' @ [CR, LF] @ ''b`;''))"
    using compile_outcome[of new_Function crlf_template] unfolding f c .
  show ?thesis using a b c d by (intro conjI)
qed

section \<open>The claim about the preamble\<close>

text \<open>
  Claim C9, as amended. The matches of the preamble pattern are found from left to right,
  each search resuming behind the previous match: in increasing order, they are the indices
  at which a declaration starts (the keyword \<^verbatim>\<open>interface\<close> or \<^verbatim>\<open>type\<close>, white space, an
  identifier other than \<^verbatim>\<open>Props\<close>) and which do not lie inside the text of an earlier match;
  no other list is of that kind. In the order of the matches, an interface contributes its
  span (from the match start through the brace that closes the first opening brace after
  it, or to the end of the frontmatter when no brace closes it), trimmed, and nothing when
  no opening brace follows it; a type alias contributes the text up to the next line feed or
  the end of the frontmatter, trimmed.
\<close>

theorem extractPreamble_declarations:
  "extractPreamble fm =
     List.map_filter (\<lambda>p. declaration_span (drop p fm)) (matchAll_from fm 0) \<and>
   resumes_behind fm (matchAll_from fm 0) \<and>
   (\<forall>L. resumes_behind fm L \<longrightarrow> L = matchAll_from fm 0)"
  using extractPreamble_spans[of fm] matchAll_from_resumes[of fm]
    resumes_behind_unique[OF _ matchAll_from_resumes[of fm]] by blast

theorem extractPreamble_declarations_witness:
  "matchAll_from fm_example 0 = [0, 38] \<and>
   resumes_behind fm_example [0, 38] \<and>
   List.map_filter (\<lambda>p. declaration_span (drop p fm_example)) [0, 38] =
     [join [LF] [''interface Hobby {'', ''    name: string;'', ''}''], ''type Id = string;''] \<and>
   matchAll_from fm_subtype 0 = [0] \<and>
   declaration_head (drop 13 fm_subtype) 12 \<and>
   \<not> resumes_behind fm_subtype [0, 13] \<and>
   extractPreamble fm_subtype =
     [join [LF] [''interface Subtype extends Base {'', ''    x: string'', ''}'']]"
proof -
  note th = extractPreamble_declarations[of fm_example]
  note ts = extractPreamble_declarations[of fm_subtype]
  have m: "matchAll_from fm_example 0 = [0, 38]" by code_simp
  have e: "extractPreamble fm_example =
      [join [LF] [''interface Hobby {'', ''    name: string;'', ''}''], ''type Id = string;'']"
    by code_simp
  have r: "resumes_behind fm_example [0, 38]"
    using th[THEN conjunct2, THEN conjunct1] unfolding m .
  have s: "List.map_filter (\<lambda>p. declaration_span (drop p fm_example)) [0, 38] =
      [join [LF] [''interface Hobby {'', ''    name: string;'', ''}''], ''type Id = string;'']"
    using th[THEN conjunct1] e unfolding m by simp
  have ms: "matchAll_from fm_subtype 0 = [0]" by code_simp
  have "preamble_match (drop 13 fm_subtype) = Some 12" by code_simp
  then have hs: "declaration_head (drop 13 fm_subtype) 12" by (simp only: preamble_match_iff)
  have ns: "\<not> resumes_behind fm_subtype [0, 13]"
  proof
    assume "resumes_behind fm_subtype [0, 13]"
    then have "[0, 13] = matchAll_from fm_subtype 0"
      using ts[THEN conjunct2, THEN conjunct2] by blast
    then show False unfolding ms by simp
  qed
  have es: "extractPreamble fm_subtype =
     [join [LF] [''interface Subtype extends Base {'', ''    x: string'', ''}'']]"
    by code_simp
  show ?thesis using m r s ms hs ns es by (intro conjI)
qed

text \<open>
  Claim C9 as stated fails: in \<^const>\<open>fm_no_brace\<close> the declaration \<^verbatim>\<open>interface Foo\<close> starts at
  index 34 and is matched there, no opening brace follows it, and the preamble is empty.
\<close>

theorem extractPreamble_skips_interface_without_brace:
  "matchAll_from fm_no_brace 0 = [34] \<and>
   declaration_head (drop 34 fm_no_brace) 13 \<and>
   extractPreamble fm_no_brace = []"
proof -
  have "preamble_match (drop 34 fm_no_brace) = Some 13" by code_simp
  then have "declaration_head (drop 34 fm_no_brace) 13" by (simp only: preamble_match_iff)
  moreover have "matchAll_from fm_no_brace 0 = [34]" by code_simp
  moreover have "extractPreamble fm_no_brace = []" by code_simp
  ultimately show ?thesis by (intro conjI)
qed

end
